theory Spec2Isabelle
  imports Main "HOL-Library.Sublist"
begin

section \<open>protogetter: direct reads of proto message fields\<close>

text \<open>
  The source file holds two revisions of \<^verbatim>\<open>protogetter.go\<close>. The first one walks the
  syntax forest with \<^verbatim>\<open>inspector.Nodes\<close> and decides everything in \<^verbatim>\<open>analyzeSelectorExpr\<close>;
  the second one walks it with \<^verbatim>\<open>inspector.Preorder\<close> and delegates to a processor and a
  position filter. Definitions of the second revision whose name the first one already
  uses carry the suffix \<open>2\<close>.
\<close>

subsection \<open>Syntax trees (go/ast) and types (go/types)\<close>

text \<open>
  A node stores its source range \<open>(Pos, End)\<close>. \<^verbatim>\<open>Sel\<close> of a selector expression is a
  pointer to an identifier and may be nil. Every node kind the analysis does not name is
  an \<open>OtherNode\<close> with its children in syntactic order.
\<close>

type_synonym span = "int \<times> int"

datatype token = ADD | SUB | NOT | XOR | AND | ARROW | TILDE

datatype node =
    Ident span string
  | SelectorExpr span node "(span \<times> string) option"
  | UnaryExpr span token node
  | CallExpr span node "node list"
  | AssignStmt span "node list" "node list"
  | IncDecStmt span node
  | OtherNode span "node list"

fun Range_of :: "node \<Rightarrow> span" where
  "Range_of (Ident r _) = r"
| "Range_of (SelectorExpr r _ _) = r"
| "Range_of (UnaryExpr r _ _) = r"
| "Range_of (CallExpr r _ _) = r"
| "Range_of (AssignStmt r _ _) = r"
| "Range_of (IncDecStmt r _) = r"
| "Range_of (OtherNode r _) = r"

text \<open>
  A type is a named type with its declared method names and its underlying type, a
  pointer, or anything else.
\<close>

datatype gotype = Basic | Pointer gotype | Named "string list" gotype

fun Underlying :: "gotype \<Rightarrow> gotype" where
  "Underlying (Named ms u) = Underlying u"
| "Underlying t = t"

text \<open>\<^verbatim>\<open>types.Info.TypeOf\<close>: the type recorded for an expression, if any.\<close>

type_synonym types_Info = "node \<Rightarrow> gotype option"

text \<open>
  A file, as far as the analysis reads it: the text of each of its comment groups
  (\<^verbatim>\<open>c.Text()\<close> for \<open>c\<close> in \<^verbatim>\<open>f.Comments\<close>, in source order) and its top-level nodes.
\<close>

record File =
  Comments :: "string list"
  Decls :: "node list"

record Pass =
  Files :: "File list"
  TypesInfo :: "types_Info option"

text \<open>
  \<^verbatim>\<open>format.Node\<close> belongs to the Go library: it is a parameter of the model, and \<open>Inl\<close> is
  its error. It renders the syntax tree it is given; it does not copy the bytes of the
  file.
\<close>

type_synonym printer = "node \<Rightarrow> string + string"

subsection \<open>First revision: the capability oracle\<close>

definition methodExists :: "types_Info option \<Rightarrow> node \<Rightarrow> string \<Rightarrow> bool" where
  "methodExists info x name =
     (case info of
        None \<Rightarrow> False
      | Some typeOf \<Rightarrow>
          (case typeOf x of
             None \<Rightarrow> False
           | Some t \<Rightarrow>
               (let t' = (case Underlying t of Pointer e \<Rightarrow> e | _ \<Rightarrow> t)
                in case t' of
                     Named ms _ \<Rightarrow> name \<in> set ms
                   | _ \<Rightarrow> False)))"

definition isProtoMessage :: "types_Info option \<Rightarrow> node \<Rightarrow> bool" where
  "isProtoMessage info expr =
     (if methodExists info expr ''ProtoReflect'' then True
      else if methodExists info expr ''ProtoMessage''
           then \<not> methodExists info expr ''MarshalToSizedBuffer''
           else False)"

subsection \<open>First revision: the finding synthesizer\<close>

definition formatNode :: "printer \<Rightarrow> node \<Rightarrow> string" where
  "formatNode format_Node n = (case format_Node n of Inl err \<Rightarrow> '''' | Inr s \<Rightarrow> s)"

record Edit =
  Range :: "span \<times> string"
  From :: string
  To :: string

record Report =
  Range :: node
  From :: string
  To :: string
  SelectorEdit :: Edit

text \<open>
  \<^verbatim>\<open>analyzeSelectorExpr\<close> receives the selector expression \<open>se\<close>; \<open>x\<close> and \<open>sel\<close> are
  \<^verbatim>\<open>se.X\<close> and \<^verbatim>\<open>se.Sel\<close>.
\<close>

definition analyzeSelectorExpr ::
  "printer \<Rightarrow> Pass \<Rightarrow> span \<Rightarrow> node \<Rightarrow> (span \<times> string) option \<Rightarrow> Report option" where
  "analyzeSelectorExpr fmt pass r x sel =
     (if \<not> isProtoMessage (TypesInfo pass) x then None
      else case sel of
             None \<Rightarrow> None
           | Some (selpos, name) \<Rightarrow>
               if prefix ''Get'' name then None
               else if methodExists (TypesInfo pass) x (''Get'' @ name)
               then Some \<lparr> Report.Range = SelectorExpr r x sel,
                           Report.From = formatNode fmt (SelectorExpr r x sel),
                           Report.To = formatNode fmt x @ ''.Get'' @ name @ ''()'',
                           SelectorEdit = \<lparr> Edit.Range = (selpos, name),
                                            Edit.From = name,
                                            Edit.To = ''Get'' @ name @ ''()'' \<rparr> \<rparr>
               else None)"

subsection \<open>First revision: the traversal\<close>

text \<open>
  The children of a node, in the order \<^verbatim>\<open>ast.Inspect\<close> walks them. The selector's
  identifier is a child of its own.
\<close>

fun children :: "node \<Rightarrow> node list" where
  "children (Ident _ _) = []"
| "children (SelectorExpr _ x sel) =
     x # (case sel of None \<Rightarrow> [] | Some (p, name) \<Rightarrow> [Ident p name])"
| "children (UnaryExpr _ _ x) = [x]"
| "children (CallExpr _ f args) = f # args"
| "children (AssignStmt _ lhs rhs) = lhs @ rhs"
| "children (IncDecStmt _ x) = [x]"
| "children (OtherNode _ cs) = cs"

lemma size_children: "c \<in> set (children n) \<Longrightarrow> size c < size n"
proof (cases n)
  case (SelectorExpr r x sel)
  assume "c \<in> set (children n)"
  with SelectorExpr show ?thesis
    by (cases sel) (auto split: prod.splits)
next
  case (CallExpr r f args)
  assume "c \<in> set (children n)"
  with CallExpr show ?thesis
    by (auto simp: less_Suc_eq_le dest: size_list_estimation'[where f = size and y = "size c", OF _ order_refl])
next
  case (AssignStmt r lhs rhs)
  assume "c \<in> set (children n)"
  with AssignStmt show ?thesis
    by (auto simp: less_Suc_eq_le dest: size_list_estimation'[where f = size and y = "size c", OF _ order_refl])
next
  case (OtherNode r cs)
  assume "c \<in> set (children n)"
  with OtherNode show ?thesis
    by (auto simp: less_Suc_eq_le dest: size_list_estimation'[where f = size and y = "size c", OF _ order_refl])
qed auto

text \<open>
  \<^verbatim>\<open>inspector.Nodes(types, f)\<close>: depth first; on a node of a listed type \<open>f\<close> is called
  with \<open>push = true\<close>, and only if it answers true are the children walked and \<open>f\<close> called
  again with \<open>push = false\<close>. Nodes of other types are walked through. The state \<open>'s\<close> is
  what the callback mutates.
\<close>

function Nodes ::
  "(node \<Rightarrow> bool) \<Rightarrow> (node \<Rightarrow> bool \<Rightarrow> 's \<Rightarrow> bool \<times> 's) \<Rightarrow> node \<Rightarrow> 's \<Rightarrow> 's" where
  "Nodes types f n s =
     (if types n
      then (case f n True s of
              (proceed, s1) \<Rightarrow>
                if proceed
                then snd (f n False (fold (Nodes types f) (children n) s1))
                else s1)
      else fold (Nodes types f) (children n) s)"
  by pat_completeness auto
termination
  by (relation "measure (\<lambda>(types, f, n, s). size n)") (auto simp: size_children)

datatype Mode = StandaloneMode | GolangciLintMode

text \<open>
  What a run produces: the reports handed to \<^verbatim>\<open>pass.Report\<close> (through
  \<^verbatim>\<open>ToAnalysisDiagnostic\<close>) and the reports appended to the returned issues (through
  \<^verbatim>\<open>ToIssue\<close>), each in traversal order. The two adapters of this revision are not part
  of the source file, so the reports themselves are kept.
\<close>

record Output =
  diagnostics :: "Report list"
  issues :: "Report list"

fun nodeTypes :: "node \<Rightarrow> bool" where
  "nodeTypes (AssignStmt _ _ _) = True"
| "nodeTypes (IncDecStmt _ _) = True"
| "nodeTypes (UnaryExpr _ _ _) = True"
| "nodeTypes (SelectorExpr _ _ _) = True"
| "nodeTypes _ = False"

fun isSelectorExpr :: "node \<Rightarrow> bool" where
  "isSelectorExpr (SelectorExpr _ _ _) = True"
| "isSelectorExpr _ = False"

definition emit :: "Mode \<Rightarrow> Report \<Rightarrow> Output \<Rightarrow> Output" where
  "emit mode report out =
     (case mode of
        StandaloneMode \<Rightarrow> out\<lparr>diagnostics := diagnostics out @ [report]\<rparr>
      | GolangciLintMode \<Rightarrow> out\<lparr>issues := issues out @ [report]\<rparr>)"

text \<open>
  The callback of \<^verbatim>\<open>Run\<close>. The last equation stands for the type assertion
  \<^verbatim>\<open>node.(*ast.SelectorExpr)\<close> on a node of another kind; \<open>Nodes nodeTypes\<close> never calls the
  callback on one.
\<close>

fun visit :: "printer \<Rightarrow> Pass \<Rightarrow> Mode \<Rightarrow> node \<Rightarrow> bool \<Rightarrow> Output \<Rightarrow> bool \<times> Output" where
  "visit fmt pass mode node False out = (False, out)"
| "visit fmt pass mode (AssignStmt _ lhs _) True out =
     (if \<exists>l \<in> set lhs. isSelectorExpr l then (False, out) else (True, out))"
| "visit fmt pass mode (IncDecStmt _ _) True out = (False, out)"
| "visit fmt pass mode (UnaryExpr _ op _) True out = (op \<noteq> AND, out)"
| "visit fmt pass mode (SelectorExpr r x sel) True out =
     (case analyzeSelectorExpr fmt pass r x sel of
        None \<Rightarrow> (True, out)
      | Some report \<Rightarrow> (True, emit mode report out))"
| "visit fmt pass mode _ True out = (True, out)"

definition isGeneratedFile :: "File \<Rightarrow> bool" where
  "isGeneratedFile f = (\<exists>c \<in> set (Comments f). prefix ''Code generated'' c)"

definition Run :: "printer \<Rightarrow> Pass \<Rightarrow> Mode \<Rightarrow> Output" where
  "Run fmt pass mode =
     (let files = filter (\<lambda>f. \<not> isGeneratedFile f) (Files pass)
      in fold (\<lambda>f. fold (Nodes nodeTypes (visit fmt pass mode)) (Decls f)) files
           \<lparr>diagnostics = [], issues = []\<rparr>)"

subsection \<open>A small concrete program\<close>

text \<open>
  \<open>msg\<close> is a pointer to a generated message type with getters for \<open>Name\<close> and \<open>S\<close>;
  \<open>gogo\<close> is a message of the older generation with \<^verbatim>\<open>MarshalToSizedBuffer\<close>.
\<close>

definition ex_info :: types_Info where
  "ex_info n =
     (case n of
        Ident _ name \<Rightarrow>
          if name = ''msg''
          then Some (Pointer (Named [''ProtoReflect'', ''GetName'', ''GetS''] Basic))
          else if name = ''gogo''
          then Some (Named [''ProtoMessage'', ''MarshalToSizedBuffer'', ''GetName''] Basic)
          else None
      | _ \<Rightarrow> None)"

definition ex_pass :: Pass where
  "ex_pass = \<lparr>Files = [], TypesInfo = Some ex_info\<rparr>"

text \<open>
  \<open>exprString\<close> is the rendering \<^verbatim>\<open>format.Node\<close> gives the expressions of the examples:
  an identifier is its name, a selector is its base, a dot and the field name, a call is
  the function, and in parentheses the arguments separated by a comma and one blank. The
  rendering is computed from the syntax tree alone; node kinds it does not cover
  answer \<open>Inl\<close>.
\<close>

fun commas :: "string list \<Rightarrow> string" where
  "commas [] = []"
| "commas [s] = s"
| "commas (s # t # ss) = s @ '', '' @ commas (t # ss)"

fun exprString :: printer where
  "exprString (Ident _ name) = Inr name"
| "exprString (SelectorExpr _ x (Some (_, name))) =
     (case exprString x of Inl err \<Rightarrow> Inl err | Inr s \<Rightarrow> Inr (s @ ''.'' @ name))"
| "exprString (CallExpr _ f args) =
     (case exprString f of
        Inl err \<Rightarrow> Inl err
      | Inr s \<Rightarrow>
          if list_ex isl (map exprString args) then Inl ''unsupported node''
          else Inr (s @ ''('' @ commas (map (\<lambda>a. projr (exprString a)) args) @ '')''))"
| "exprString _ = Inl ''unsupported node''"

definition msg_Name :: node where
  "msg_Name = SelectorExpr (0, 8) (Ident (0, 3) ''msg'') (Some ((4, 8), ''Name''))"

definition msg_Name_report :: Report where
  "msg_Name_report =
     \<lparr> Report.Range = msg_Name, Report.From = ''msg.Name'', Report.To = ''msg.GetName()'',
       SelectorEdit = \<lparr> Edit.Range = ((4, 8), ''Name''), Edit.From = ''Name'',
                        Edit.To = ''GetName()'' \<rparr> \<rparr>"

definition no_output :: Output where
  "no_output = \<lparr>diagnostics = [], issues = []\<rparr>"

definition gogo_Name :: node where
  "gogo_Name = SelectorExpr (0, 9) (Ident (0, 4) ''gogo'') (Some ((5, 9), ''Name''))"

definition untyped_Name :: node where
  "untyped_Name = SelectorExpr (0, 6) (Ident (0, 1) ''u'') (Some ((2, 6), ''Name''))"

definition generated_file :: File where
  "generated_file =
     \<lparr>Comments = [''Code generated by protoc-gen-go. DO NOT EDIT.''], Decls = [msg_Name]\<rparr>"

definition plain_file :: File where
  "plain_file = \<lparr>Comments = [''Package demo.''], Decls = [msg_Name]\<rparr>"

subsection \<open>The traversal, node kind by node kind\<close>

declare Nodes.simps [simp del]

lemma Nodes_Ident: "Nodes nodeTypes f (Ident r name) s = s"
  by (simp add: Nodes.simps)

lemma walk_AssignStmt:
  "Nodes nodeTypes (visit fmt pass mode) (AssignStmt r lhs rhs) out =
     (if \<exists>l \<in> set lhs. isSelectorExpr l then out
      else fold (Nodes nodeTypes (visit fmt pass mode)) (lhs @ rhs) out)"
  by (simp add: Nodes.simps)

lemma walk_IncDecStmt:
  "Nodes nodeTypes (visit fmt pass mode) (IncDecStmt r x) out = out"
  by (simp add: Nodes.simps)

lemma walk_UnaryExpr:
  "Nodes nodeTypes (visit fmt pass mode) (UnaryExpr r op x) out =
     (if op \<noteq> AND then Nodes nodeTypes (visit fmt pass mode) x out else out)"
  by (simp add: Nodes.simps)

lemma walk_SelectorExpr:
  "Nodes nodeTypes (visit fmt pass mode) (SelectorExpr r x sel) out =
     Nodes nodeTypes (visit fmt pass mode) x
       (case analyzeSelectorExpr fmt pass r x sel of
          None \<Rightarrow> out
        | Some report \<Rightarrow> emit mode report out)"
  by (cases sel) (auto simp: Nodes.simps Nodes_Ident split: option.splits)

lemma walk_CallExpr:
  "Nodes nodeTypes (visit fmt pass mode) (CallExpr r f args) out =
     fold (Nodes nodeTypes (visit fmt pass mode)) (f # args) out"
  by (simp add: Nodes.simps)

lemma walk_OtherNode:
  "Nodes nodeTypes (visit fmt pass mode) (OtherNode r cs) out =
     fold (Nodes nodeTypes (visit fmt pass mode)) cs out"
  by (simp add: Nodes.simps)

lemmas walk_simps =
  Nodes_Ident walk_AssignStmt walk_IncDecStmt walk_UnaryExpr walk_SelectorExpr
  walk_CallExpr walk_OtherNode

text \<open>Where no selector is reportable, a walk leaves the output as it was.\<close>

lemma walk_no_reports:
  assumes "\<And>r x sel. analyzeSelectorExpr fmt pass r x sel = None"
  shows "Nodes nodeTypes (visit fmt pass mode) n out = out"
proof (induction n arbitrary: out)
  case (CallExpr r f args)
  have "fold (Nodes nodeTypes (visit fmt pass mode)) args s = s" for s
    using CallExpr.IH(2) by (induction args arbitrary: s) auto
  then show ?case using CallExpr.IH(1) by (simp add: walk_CallExpr)
next
  case (AssignStmt r lhs rhs)
  have "fold (Nodes nodeTypes (visit fmt pass mode)) lhs s = s" for s
    using AssignStmt.IH(1) by (induction lhs arbitrary: s) auto
  moreover have "fold (Nodes nodeTypes (visit fmt pass mode)) rhs s = s" for s
    using AssignStmt.IH(2) by (induction rhs arbitrary: s) auto
  ultimately show ?case by (simp add: walk_AssignStmt)
next
  case (OtherNode r cs)
  have "fold (Nodes nodeTypes (visit fmt pass mode)) cs s = s" for s
    using OtherNode.IH by (induction cs arbitrary: s) auto
  then show ?case by (simp add: walk_OtherNode)
qed (simp_all add: Nodes_Ident walk_IncDecStmt walk_UnaryExpr walk_SelectorExpr assms)

text \<open>The callback reads nothing of the pass but its type information.\<close>

lemma analyzeSelectorExpr_Files:
  "analyzeSelectorExpr fmt (pass\<lparr>Files := fs\<rparr>) r x sel = analyzeSelectorExpr fmt pass r x sel"
  by (simp add: analyzeSelectorExpr_def split: option.splits)

lemma visit_Files: "visit fmt (pass\<lparr>Files := fs\<rparr>) mode = visit fmt pass mode"
proof (intro ext)
  fix n push out
  show "visit fmt (pass\<lparr>Files := fs\<rparr>) mode n push out = visit fmt pass mode n push out"
    by (cases push; cases n) (simp_all add: analyzeSelectorExpr_Files)
qed

lemma ex_msg_Name_report:
  "analyzeSelectorExpr exprString ex_pass (0, 8) (Ident (0, 3) ''msg'') (Some ((4, 8), ''Name''))
     = Some msg_Name_report"
  by (simp add: analyzeSelectorExpr_def isProtoMessage_def methodExists_def ex_pass_def
      ex_info_def formatNode_def msg_Name_report_def msg_Name_def)

lemma ex_walk_msg_Name:
  "Nodes nodeTypes (visit exprString ex_pass StandaloneMode) msg_Name no_output
     = \<lparr>diagnostics = [msg_Name_report], issues = []\<rparr>"
  by (simp add: msg_Name_def walk_simps ex_msg_Name_report emit_def no_output_def)

subsection \<open>First revision: the node classifier\<close>

text \<open>
  Claim C1. An assignment statement with a selector expression among its left-hand sides
  is skipped with its whole subtree, right-hand side included: the walk leaves the output
  as it was. The same holds for the increment or decrement of a field access and for the
  address-of of a field access, whatever accessor the field has. A unary operator other
  than \<open>&\<close> leaves its operand inspectable: the walk of the unary expression is the
  walk of its operand.
\<close>

theorem exempt_positions_yield_no_finding:
  "((\<exists>l \<in> set lhs. isSelectorExpr l) \<longrightarrow>
      Nodes nodeTypes (visit fmt pass mode) (AssignStmt r lhs rhs) out = out)
   \<and> Nodes nodeTypes (visit fmt pass mode) (IncDecStmt r (SelectorExpr r' x sel)) out = out
   \<and> Nodes nodeTypes (visit fmt pass mode) (UnaryExpr r AND (SelectorExpr r' x sel)) out = out
   \<and> (op \<noteq> AND \<longrightarrow>
        Nodes nodeTypes (visit fmt pass mode) (UnaryExpr r op e) out
          = Nodes nodeTypes (visit fmt pass mode) e out)"
  by (simp add: walk_AssignStmt walk_IncDecStmt walk_UnaryExpr)

theorem exempt_positions_witness:
  "Nodes nodeTypes (visit exprString ex_pass StandaloneMode)
       (AssignStmt (0, 14) [msg_Name] [OtherNode (11, 14) []]) no_output = no_output
   \<and> Nodes nodeTypes (visit exprString ex_pass StandaloneMode)
       (AssignStmt (0, 14) [Ident (20, 21) ''v''] [msg_Name]) no_output
       = \<lparr>diagnostics = [msg_Name_report], issues = []\<rparr>
   \<and> Nodes nodeTypes (visit exprString ex_pass StandaloneMode)
       (IncDecStmt (0, 10) msg_Name) no_output = no_output
   \<and> Nodes nodeTypes (visit exprString ex_pass StandaloneMode)
       (UnaryExpr (0, 9) AND msg_Name) no_output = no_output
   \<and> Nodes nodeTypes (visit exprString ex_pass StandaloneMode)
       (UnaryExpr (0, 9) SUB msg_Name) no_output
       = \<lparr>diagnostics = [msg_Name_report], issues = []\<rparr>"
  using exempt_positions_yield_no_finding
          [of "[msg_Name]" exprString ex_pass StandaloneMode "(0, 14)" "[OtherNode (11, 14) []]"
              no_output "(0, 8)" "Ident (0, 3) ''msg''" "Some ((4, 8), ''Name'')" SUB msg_Name]
        ex_walk_msg_Name
  by (simp add: msg_Name_def walk_AssignStmt walk_IncDecStmt walk_UnaryExpr Nodes_Ident)

text \<open>
  Claim C10. Every increment/decrement statement is skipped with its whole subtree,
  whatever its operand is: in \<^verbatim>\<open>m[msg.Name]++\<close> the read \<^verbatim>\<open>msg.Name\<close>, which is reported
  when the index expression stands alone, yields nothing.
\<close>

theorem incdec_subtree_skipped:
  "Nodes nodeTypes (visit fmt pass mode) (IncDecStmt r x) out = out"
  by (rule walk_IncDecStmt)

theorem incdec_subtree_skipped_witness:
  "Nodes nodeTypes (visit exprString ex_pass StandaloneMode)
       (IncDecStmt (0, 13) (OtherNode (0, 11) [Ident (0, 1) ''m'', msg_Name])) no_output
     = no_output
   \<and> Nodes nodeTypes (visit exprString ex_pass StandaloneMode)
       (OtherNode (0, 11) [Ident (0, 1) ''m'', msg_Name]) no_output
     = \<lparr>diagnostics = [msg_Name_report], issues = []\<rparr>"
  using incdec_subtree_skipped
          [of exprString ex_pass StandaloneMode "(0, 13)"
              "OtherNode (0, 11) [Ident (0, 1) ''m'', msg_Name]" no_output]
        ex_walk_msg_Name
  by (simp add: walk_OtherNode Nodes_Ident)

subsection \<open>First revision: the rewrite\<close>

text \<open>
  The original text of a node: the bytes of the file's text between the node's \<open>Pos\<close>
  and \<open>End\<close>, positions counted as offsets into that text.
\<close>

definition sourceText :: "string \<Rightarrow> span \<Rightarrow> string" where
  "sourceText src r = take (nat (snd r - fst r)) (drop (nat (fst r)) src)"

text \<open>
  A dotted chain of identifiers, written in the file without blanks: each identifier
  stands at its position as its name, and a selector is its base, one dot and the field
  name, one right after the other.
\<close>

fun dotted :: "string \<Rightarrow> node \<Rightarrow> bool" where
  "dotted src (Ident (p, e) name) =
     (0 \<le> p \<and> e = p + int (length name) \<and> sourceText src (p, e) = name)"
| "dotted src (SelectorExpr (p, e) x (Some ((sp, se), name))) =
     (dotted src x \<and> fst (Range_of x) = p \<and> sp = snd (Range_of x) + 1
      \<and> se = sp + int (length name) \<and> e = se
      \<and> sourceText src (snd (Range_of x), sp) = ''.''
      \<and> sourceText src (sp, se) = name)"
| "dotted src _ = False"

lemma sourceText_append:
  assumes "0 \<le> p" "p \<le> m" "m \<le> e"
  shows "sourceText src (p, e) = sourceText src (p, m) @ sourceText src (m, e)"
proof -
  have "nat (e - p) = nat (m - p) + nat (e - m)" using assms by simp
  moreover have "nat m = nat (m - p) + nat p" using assms by simp
  ultimately show ?thesis
    by (simp add: sourceText_def take_add)
qed

lemma dotted_range: "dotted src n \<Longrightarrow> 0 \<le> fst (Range_of n) \<and> fst (Range_of n) \<le> snd (Range_of n)"
  by (induction src n rule: dotted.induct) auto

lemma dotted_exprString: "dotted src n \<Longrightarrow> exprString n = Inr (sourceText src (Range_of n))"
proof (induction src n rule: dotted.induct)
  case (1 src p e name)
  then show ?case by auto
next
  case (2 src p e x sp se name)
  from "2.prems" have d: "dotted src x" and px: "fst (Range_of x) = p"
    and sp: "sp = snd (Range_of x) + 1" and se: "se = sp + int (length name)" and e: "e = se"
    and dot: "sourceText src (snd (Range_of x), sp) = ''.''"
    and nm: "sourceText src (sp, se) = name"
    by auto
  from dotted_range [OF d] px have r: "0 \<le> p" "p \<le> snd (Range_of x)" by simp_all
  have x: "exprString x = Inr (sourceText src (p, snd (Range_of x)))"
    using "2.IH" [OF d] px by (cases "Range_of x") simp
  have "sourceText src (p, e)
          = sourceText src (p, snd (Range_of x)) @ sourceText src (snd (Range_of x), e)"
    using r sp se e by (intro sourceText_append) simp_all
  also have "sourceText src (snd (Range_of x), e)
          = sourceText src (snd (Range_of x), sp) @ sourceText src (sp, e)"
    using r sp se e by (intro sourceText_append) simp_all
  finally show ?case
    using x dot nm e by simp
qed simp_all

definition call_site :: node where
  "call_site =
     SelectorExpr (0, 11)
       (CallExpr (0, 6) (Ident (0, 1) ''f'') [Ident (2, 3) ''a'', Ident (4, 5) ''b''])
       (Some ((7, 11), ''Name''))"

definition call_pass :: Pass where
  "call_pass =
     \<lparr>Files = [],
      TypesInfo = Some (\<lambda>n. case n of
                              CallExpr _ _ _ \<Rightarrow>
                                Some (Pointer (Named [''ProtoReflect'', ''GetName''] Basic))
                            | _ \<Rightarrow> None)\<rparr>"

text \<open>
  Claim C3, as stated, fails where the rendering differs from the bytes of the file. In
  \<^verbatim>\<open>f(a,b).Name\<close> the arguments are written without a blank; the finding's \<open>From\<close> is
  \<^verbatim>\<open>f(a, b).Name\<close>, not the original text, and its \<open>To\<close> is \<^verbatim>\<open>f(a, b).GetName()\<close>.
\<close>

theorem rewrite_text_counterexample:
  "sourceText ''f(a,b).Name'' (Range_of call_site) = ''f(a,b).Name''
   \<and> map Report.Range
        (diagnostics (Nodes nodeTypes (visit exprString call_pass StandaloneMode) call_site no_output))
       = [call_site]
   \<and> map Report.From
        (diagnostics (Nodes nodeTypes (visit exprString call_pass StandaloneMode) call_site no_output))
       = [''f(a, b).Name'']
   \<and> map Report.To
        (diagnostics (Nodes nodeTypes (visit exprString call_pass StandaloneMode) call_site no_output))
       = [''f(a, b).GetName()'']
   \<and> ''f(a, b).Name'' \<noteq> sourceText ''f(a,b).Name'' (Range_of call_site)"
  by (simp add: call_site_def call_pass_def sourceText_def walk_simps analyzeSelectorExpr_def
      isProtoMessage_def methodExists_def formatNode_def emit_def no_output_def)

text \<open>
  Claim C3, amended. For every finding on a selector \<open>base.Field\<close>, \<open>From\<close> is the
  text \<open>formatNode\<close> gives the whole selector and \<open>To\<close> is the text it gives the base,
  followed by \<open>.Get\<close>, the field name and \<open>()\<close>. Where the selector is a dotted chain
  of identifiers, these are exact: \<open>From\<close> is the original text of the selector and
  \<open>To\<close> the original text of the base followed by \<open>.Get\<close>, the field name and
  \<open>()\<close>; for \<^verbatim>\<open>msg.Name\<close> with the accessor \<^verbatim>\<open>GetName\<close> they are \<^verbatim>\<open>msg.Name\<close> and
  \<^verbatim>\<open>msg.GetName()\<close>.
\<close>

theorem rewrite_text:
  "(analyzeSelectorExpr fmt pass r x sel = Some report \<longrightarrow>
      (\<exists>p name. sel = Some (p, name)
         \<and> Report.Range report = SelectorExpr r x sel
         \<and> Report.From report = formatNode fmt (SelectorExpr r x sel)
         \<and> Report.To report = formatNode fmt x @ ''.Get'' @ name @ ''()''))
   \<and> (analyzeSelectorExpr exprString pass r x sel = Some report' \<and> dotted src (SelectorExpr r x sel)
      \<longrightarrow> (\<exists>p name. sel = Some (p, name)
         \<and> Report.From report' = sourceText src r
         \<and> Report.To report' = sourceText src (Range_of x) @ ''.Get'' @ name @ ''()''))"
proof (intro conjI impI)
  assume "analyzeSelectorExpr fmt pass r x sel = Some report"
  then show "\<exists>p name. sel = Some (p, name)
         \<and> Report.Range report = SelectorExpr r x sel
         \<and> Report.From report = formatNode fmt (SelectorExpr r x sel)
         \<and> Report.To report = formatNode fmt x @ ''.Get'' @ name @ ''()''"
    by (auto simp: analyzeSelectorExpr_def split: if_splits option.splits)
next
  assume a: "analyzeSelectorExpr exprString pass r x sel = Some report' \<and> dotted src (SelectorExpr r x sel)"
  then obtain p name where sel: "sel = Some (p, name)"
    and f: "Report.From report' = formatNode exprString (SelectorExpr r x sel)"
    and t: "Report.To report' = formatNode exprString x @ ''.Get'' @ name @ ''()''"
    by (auto simp: analyzeSelectorExpr_def split: if_splits option.splits)
  from a have d: "dotted src (SelectorExpr r x sel)" by simp
  then have dx: "dotted src x"
    using sel by (cases r; cases p) simp
  have "formatNode exprString (SelectorExpr r x sel) = sourceText src r"
    using dotted_exprString [OF d] by (simp add: formatNode_def)
  moreover have "formatNode exprString x = sourceText src (Range_of x)"
    using dotted_exprString [OF dx] by (simp add: formatNode_def)
  ultimately show "\<exists>p name. sel = Some (p, name)
         \<and> Report.From report' = sourceText src r
         \<and> Report.To report' = sourceText src (Range_of x) @ ''.Get'' @ name @ ''()''"
    using sel f t by simp
qed

theorem rewrite_text_witness:
  "analyzeSelectorExpr exprString ex_pass (5, 13) (Ident (5, 8) ''msg'') (Some ((9, 13), ''Name''))
     = Some \<lparr> Report.Range = SelectorExpr (5, 13) (Ident (5, 8) ''msg'') (Some ((9, 13), ''Name'')),
              Report.From = ''msg.Name'', Report.To = ''msg.GetName()'',
              SelectorEdit = \<lparr> Edit.Range = ((9, 13), ''Name''), Edit.From = ''Name'',
                               Edit.To = ''GetName()'' \<rparr> \<rparr>
   \<and> dotted ''x := msg.Name'' (SelectorExpr (5, 13) (Ident (5, 8) ''msg'') (Some ((9, 13), ''Name'')))
   \<and> sourceText ''x := msg.Name'' (5, 13) = ''msg.Name''
   \<and> sourceText ''x := msg.Name'' (5, 8) = ''msg''"
proof -
  let ?report = "\<lparr> Report.Range = SelectorExpr (5, 13) (Ident (5, 8) ''msg'') (Some ((9, 13), ''Name'')),
              Report.From = ''msg.Name'', Report.To = ''msg.GetName()'',
              SelectorEdit = \<lparr> Edit.Range = ((9, 13), ''Name''), Edit.From = ''Name'',
                               Edit.To = ''GetName()'' \<rparr> \<rparr>"
  have a: "analyzeSelectorExpr exprString ex_pass (5, 13) (Ident (5, 8) ''msg'') (Some ((9, 13), ''Name''))
             = Some ?report"
    by (simp add: analyzeSelectorExpr_def isProtoMessage_def methodExists_def ex_pass_def
        ex_info_def formatNode_def)
  have d: "dotted ''x := msg.Name'' (SelectorExpr (5, 13) (Ident (5, 8) ''msg'') (Some ((9, 13), ''Name'')))"
    by (simp add: sourceText_def)
  from rewrite_text
         [of exprString ex_pass "(5, 13)" "Ident (5, 8) ''msg''" "Some ((9, 13), ''Name'')" ?report
             ?report "''x := msg.Name''"]
       a d
  have "Report.From ?report = sourceText ''x := msg.Name'' (5, 13)"
    and "Report.To ?report = sourceText ''x := msg.Name'' (5, 8) @ ''.Get'' @ ''Name'' @ ''()''"
    by auto
  then have "sourceText ''x := msg.Name'' (5, 13) = ''msg.Name''"
    and "sourceText ''x := msg.Name'' (5, 8) = ''msg''"
    by simp_all
  with a d show ?thesis by blast
qed

subsection \<open>First revision: scope of the oracle\<close>

text \<open>
  Claim C4. An expression whose type declares \<^verbatim>\<open>ProtoMessage\<close> and
  \<^verbatim>\<open>MarshalToSizedBuffer\<close> but not \<^verbatim>\<open>ProtoReflect\<close> is no proto message for the analysis:
  a selector on it yields no finding, whatever getter its type has. The exception applies
  only without \<^verbatim>\<open>ProtoReflect\<close>: a type that declares \<^verbatim>\<open>ProtoReflect\<close> is in scope, also
  when it declares \<^verbatim>\<open>MarshalToSizedBuffer\<close>.
\<close>

theorem gogo_scope_exclusion:
  "(methodExists (TypesInfo pass) x ''ProtoMessage''
      \<and> methodExists (TypesInfo pass) x ''MarshalToSizedBuffer''
      \<and> \<not> methodExists (TypesInfo pass) x ''ProtoReflect''
    \<longrightarrow> \<not> isProtoMessage (TypesInfo pass) x
        \<and> analyzeSelectorExpr fmt pass r x sel = None
        \<and> Nodes nodeTypes (visit fmt pass mode) (SelectorExpr r x sel) out
            = Nodes nodeTypes (visit fmt pass mode) x out)
   \<and> (methodExists (TypesInfo pass) x ''ProtoReflect'' \<longrightarrow> isProtoMessage (TypesInfo pass) x)"
  by (simp add: isProtoMessage_def analyzeSelectorExpr_def walk_SelectorExpr)

theorem gogo_scope_exclusion_witness:
  "methodExists (TypesInfo ex_pass) (Ident (0, 4) ''gogo'') ''ProtoMessage''
   \<and> methodExists (TypesInfo ex_pass) (Ident (0, 4) ''gogo'') ''MarshalToSizedBuffer''
   \<and> \<not> methodExists (TypesInfo ex_pass) (Ident (0, 4) ''gogo'') ''ProtoReflect''
   \<and> methodExists (TypesInfo ex_pass) (Ident (0, 4) ''gogo'') ''GetName''
   \<and> analyzeSelectorExpr exprString ex_pass (0, 9) (Ident (0, 4) ''gogo'') (Some ((5, 9), ''Name''))
       = None
   \<and> Nodes nodeTypes (visit exprString ex_pass StandaloneMode) gogo_Name no_output = no_output
   \<and> methodExists (TypesInfo (ex_pass\<lparr>TypesInfo := Some (\<lambda>n. Some (Named [''ProtoReflect'', ''MarshalToSizedBuffer''] Basic))\<rparr>)) (Ident (0, 4) ''gogo'') ''ProtoReflect''
   \<and> isProtoMessage (TypesInfo (ex_pass\<lparr>TypesInfo := Some (\<lambda>n. Some (Named [''ProtoReflect'', ''MarshalToSizedBuffer''] Basic))\<rparr>)) (Ident (0, 4) ''gogo'')"
  using gogo_scope_exclusion
          [of ex_pass "Ident (0, 4) ''gogo''" exprString "(0, 9)" "Some ((5, 9), ''Name'')"
              StandaloneMode no_output]
        gogo_scope_exclusion
          [of "ex_pass\<lparr>TypesInfo := Some (\<lambda>n. Some (Named [''ProtoReflect'', ''MarshalToSizedBuffer''] Basic))\<rparr>"
              "Ident (0, 4) ''gogo''" exprString "(0, 9)" "Some ((5, 9), ''Name'')"
              StandaloneMode no_output]
  by (simp add: methodExists_def ex_pass_def ex_info_def gogo_Name_def Nodes_Ident)

text \<open>
  Claim C9. Where the type information is nil, or records no type for an expression, every
  method query on the expression answers false, the expression is no proto message and a
  selector on it yields no finding. \<open>Run\<close> has no error result: it is a total function
  of its input, and without any type information it reports nothing at all.
\<close>

theorem missing_type_info_is_scope_miss:
  assumes "TypesInfo pass = None \<or> (\<exists>typeOf. TypesInfo pass = Some typeOf \<and> typeOf x = None)"
  shows "\<not> methodExists (TypesInfo pass) x name
         \<and> \<not> isProtoMessage (TypesInfo pass) x
         \<and> analyzeSelectorExpr fmt pass r x sel = None
         \<and> Nodes nodeTypes (visit fmt pass mode) (SelectorExpr r x sel) out
             = Nodes nodeTypes (visit fmt pass mode) x out
         \<and> (TypesInfo pass = None \<longrightarrow> Run fmt pass mode = no_output)"
proof -
  have m: "\<not> methodExists (TypesInfo pass) x n" for n
    using assms by (auto simp: methodExists_def)
  have a: "analyzeSelectorExpr fmt pass r x sel = None"
    by (simp add: analyzeSelectorExpr_def isProtoMessage_def m)
  have "Run fmt pass mode = no_output" if "TypesInfo pass = None"
  proof -
    have "analyzeSelectorExpr fmt pass r' x' sel' = None" for r' x' sel'
      using that by (simp add: analyzeSelectorExpr_def isProtoMessage_def methodExists_def)
    then have w: "Nodes nodeTypes (visit fmt pass mode) n s = s" for n s
      by (rule walk_no_reports)
    have d: "fold (Nodes nodeTypes (visit fmt pass mode)) ds s = s" for ds s
      by (induction ds arbitrary: s) (simp_all add: w)
    have "fold (\<lambda>f. fold (Nodes nodeTypes (visit fmt pass mode)) (Decls f)) fs s = s" for fs s
      by (induction fs arbitrary: s) (simp_all add: d)
    then show ?thesis by (simp add: Run_def no_output_def)
  qed
  with m a show ?thesis
    by (simp add: isProtoMessage_def walk_SelectorExpr)
qed

theorem missing_type_info_witness:
  "(\<exists>typeOf. TypesInfo ex_pass = Some typeOf \<and> typeOf (Ident (0, 1) ''u'') = None)
   \<and> \<not> methodExists (TypesInfo ex_pass) (Ident (0, 1) ''u'') ''GetName''
   \<and> Nodes nodeTypes (visit exprString ex_pass StandaloneMode) untyped_Name no_output = no_output
   \<and> TypesInfo \<lparr>Files = [\<lparr>Comments = [], Decls = [msg_Name]\<rparr>], TypesInfo = None\<rparr> = None
   \<and> Run exprString \<lparr>Files = [\<lparr>Comments = [], Decls = [msg_Name]\<rparr>], TypesInfo = None\<rparr>
         GolangciLintMode = no_output"
proof -
  have h: "TypesInfo ex_pass = None
           \<or> (\<exists>typeOf. TypesInfo ex_pass = Some typeOf \<and> typeOf (Ident (0, 1) ''u'') = None)"
    by (simp add: ex_pass_def ex_info_def)
  have h': "TypesInfo \<lparr>Files = [\<lparr>Comments = [], Decls = [msg_Name]\<rparr>], TypesInfo = None\<rparr> = None
           \<or> (\<exists>typeOf. TypesInfo \<lparr>Files = [\<lparr>Comments = [], Decls = [msg_Name]\<rparr>], TypesInfo = None\<rparr> = Some typeOf \<and> typeOf (Ident (0, 3) ''msg'') = None)"
    by simp
  show ?thesis
    using h missing_type_info_is_scope_miss
            [OF h, of "''GetName''" exprString "(0, 6)" "Some ((2, 6), ''Name'')"
                StandaloneMode no_output]
          missing_type_info_is_scope_miss
            [OF h', of "''GetName''" exprString "(0, 8)" "Some ((4, 8), ''Name'')"
                GolangciLintMode no_output]
    by (simp add: untyped_Name_def Nodes_Ident ex_pass_def)
qed

subsection \<open>First revision: generated files\<close>

text \<open>
  Claim C7. A file whose first comment begins with \<^verbatim>\<open>Code generated\<close> is a generated
  file; alone it yields no finding, and among other files it contributes nothing: it is
  dropped before the walk starts.
\<close>

theorem generated_file_excluded:
  assumes "Comments f = c # cs" and "prefix ''Code generated'' c"
  shows "isGeneratedFile f
         \<and> Run fmt (pass\<lparr>Files := [f]\<rparr>) mode = no_output
         \<and> Run fmt (pass\<lparr>Files := fs @ f # fs'\<rparr>) mode = Run fmt (pass\<lparr>Files := fs @ fs'\<rparr>) mode"
proof -
  have g: "isGeneratedFile f"
    using assms by (simp add: isGeneratedFile_def)
  then show ?thesis
    by (simp add: Run_def no_output_def visit_Files)
qed

theorem generated_file_excluded_witness:
  "Comments generated_file = [''Code generated by protoc-gen-go. DO NOT EDIT.'']
   \<and> prefix ''Code generated'' ''Code generated by protoc-gen-go. DO NOT EDIT.''
   \<and> Run exprString (ex_pass\<lparr>Files := [generated_file]\<rparr>) StandaloneMode = no_output
   \<and> Run exprString (ex_pass\<lparr>Files := [plain_file]\<rparr>) StandaloneMode
       = \<lparr>diagnostics = [msg_Name_report], issues = []\<rparr>"
proof -
  have c: "Comments generated_file = ''Code generated by protoc-gen-go. DO NOT EDIT.'' # []"
    by (simp add: generated_file_def)
  have p: "prefix ''Code generated'' ''Code generated by protoc-gen-go. DO NOT EDIT.''"
    by simp
  have "Run exprString (ex_pass\<lparr>Files := [plain_file]\<rparr>) StandaloneMode
       = \<lparr>diagnostics = [msg_Name_report], issues = []\<rparr>"
    using ex_walk_msg_Name
    by (simp add: Run_def plain_file_def isGeneratedFile_def visit_Files no_output_def)
  with c p generated_file_excluded [OF c p, of exprString ex_pass StandaloneMode "[]" "[]"]
  show ?thesis by simp
qed

subsection \<open>First revision: the getter guard and the fixed program\<close>

text \<open>
  Applying the suggested fixes. The fix of a finding replaces the selector's identifier
  by \<open>Edit.To\<close>, that is \<^verbatim>\<open>Name\<close> by \<^verbatim>\<open>GetName()\<close>: the selector becomes a call of the
  getter. \<open>applyFixes\<close> does so at every selector the walk reports, and leaves the
  subtrees the walk skips as they are. The ranges stay as labels of the nodes; the first
  revision never reads them. \<open>subnodes\<close> lists a node and everything below it.
\<close>

function subnodes :: "node \<Rightarrow> node list" where
  "subnodes n = n # concat (map subnodes (children n))"
  by pat_completeness auto
termination
  by (relation "measure size") (auto simp: size_children)

declare subnodes.simps [simp del]

fun applyFixes :: "printer \<Rightarrow> Pass \<Rightarrow> node \<Rightarrow> node" where
  "applyFixes fmt pass (Ident r name) = Ident r name"
| "applyFixes fmt pass (SelectorExpr r x sel) =
     (case analyzeSelectorExpr fmt pass r x sel of
        None \<Rightarrow> SelectorExpr r (applyFixes fmt pass x) sel
      | Some report \<Rightarrow>
          CallExpr r
            (SelectorExpr r (applyFixes fmt pass x)
               (Some (fst (Edit.Range (SelectorEdit report)),
                      ''Get'' @ Edit.From (SelectorEdit report))))
            [])"
| "applyFixes fmt pass (UnaryExpr r op x) =
     (if op \<noteq> AND then UnaryExpr r op (applyFixes fmt pass x) else UnaryExpr r op x)"
| "applyFixes fmt pass (CallExpr r f args) =
     CallExpr r (applyFixes fmt pass f) (map (applyFixes fmt pass) args)"
| "applyFixes fmt pass (AssignStmt r lhs rhs) =
     (if \<exists>l \<in> set lhs. isSelectorExpr l then AssignStmt r lhs rhs
      else AssignStmt r (map (applyFixes fmt pass) lhs) (map (applyFixes fmt pass) rhs))"
| "applyFixes fmt pass (IncDecStmt r x) = IncDecStmt r x"
| "applyFixes fmt pass (OtherNode r cs) = OtherNode r (map (applyFixes fmt pass) cs)"

definition applyFixes_File :: "printer \<Rightarrow> Pass \<Rightarrow> File \<Rightarrow> File" where
  "applyFixes_File fmt pass f =
     (if isGeneratedFile f then f else f\<lparr>Decls := map (applyFixes fmt pass) (Decls f)\<rparr>)"

lemma subnodes_self: "n \<in> set (subnodes n)"
  by (subst subnodes.simps) simp

lemma subnodes_child:
  "c \<in> set (children n) \<Longrightarrow> e \<in> set (subnodes c) \<Longrightarrow> e \<in> set (subnodes n)"
  by (subst subnodes.simps) auto

lemma isSelectorExpr_applyFixes:
  "isSelectorExpr (applyFixes fmt pass e) \<Longrightarrow> isSelectorExpr e"
  by (cases e) (auto split: option.splits if_splits)

lemma analyzeSelectorExpr_Get:
  "prefix ''Get'' name \<Longrightarrow> analyzeSelectorExpr fmt pass r x (Some (p, name)) = None"
  by (simp add: analyzeSelectorExpr_def)

lemma analyzeSelectorExpr_None_transfer:
  assumes "analyzeSelectorExpr fmt pass r x sel = None"
    and "\<And>m. methodExists (TypesInfo pass') x' m = methodExists (TypesInfo pass) x m"
  shows "analyzeSelectorExpr fmt' pass' r' x' sel = None"
proof -
  have p: "isProtoMessage (TypesInfo pass') x' = isProtoMessage (TypesInfo pass) x"
    by (simp add: isProtoMessage_def assms(2))
  show ?thesis
  proof (cases sel)
    case None
    then show ?thesis by (simp add: analyzeSelectorExpr_def)
  next
    case (Some a)
    obtain q name where a: "a = (q, name)" by (cases a)
    from assms(1) show ?thesis
      unfolding analyzeSelectorExpr_def p Some a
      by (simp add: assms(2) split: if_splits)
  qed
qed

lemma analyzeSelectorExpr_Some_sel:
  "analyzeSelectorExpr fmt pass r x sel = Some report \<Longrightarrow>
     \<exists>p name. sel = Some (p, name) \<and> SelectorEdit report
        = \<lparr> Edit.Range = (p, name), Edit.From = name, Edit.To = ''Get'' @ name @ ''()'' \<rparr>"
  by (auto simp: analyzeSelectorExpr_def split: option.splits if_splits)

lemma fold_walk_id:
  assumes "\<And>c s. c \<in> set cs \<Longrightarrow> Nodes nodeTypes f (g c) s = s"
  shows "fold (Nodes nodeTypes f) (map g cs) s = s"
  using assms by (induction cs arbitrary: s) auto

lemma walk_applyFixes:
  assumes "\<And>e m. e \<in> set (subnodes t) \<Longrightarrow>
             methodExists (TypesInfo pass') (applyFixes fmt pass e) m
               = methodExists (TypesInfo pass) e m"
  shows "Nodes nodeTypes (visit fmt' pass' mode) (applyFixes fmt pass t) out = out"
  using assms
proof (induction t arbitrary: out)
  case (Ident r name)
  show ?case by (simp add: Nodes_Ident)
next
  case (SelectorExpr r x sel)
  have x: "Nodes nodeTypes (visit fmt' pass' mode) (applyFixes fmt pass x) s = s" for s
    by (rule SelectorExpr.IH) (rule SelectorExpr.prems, rule subnodes_child [of x], simp_all)
  have mx: "methodExists (TypesInfo pass') (applyFixes fmt pass x) m
              = methodExists (TypesInfo pass) x m" for m
    by (rule SelectorExpr.prems, rule subnodes_child [of x]) (simp_all add: subnodes_self)
  show ?case
  proof (cases "analyzeSelectorExpr fmt pass r x sel")
    case None
    from analyzeSelectorExpr_None_transfer [OF None mx]
    show ?thesis using None by (simp add: walk_SelectorExpr x)
  next
    case (Some report)
    from analyzeSelectorExpr_Some_sel [OF Some] obtain p name where
      "sel = Some (p, name)" "SelectorEdit report
        = \<lparr> Edit.Range = (p, name), Edit.From = name, Edit.To = ''Get'' @ name @ ''()'' \<rparr>"
      by blast
    then show ?thesis
      using Some by (simp add: walk_CallExpr walk_SelectorExpr analyzeSelectorExpr_Get x)
  qed
next
  case (UnaryExpr r op x)
  have "Nodes nodeTypes (visit fmt' pass' mode) (applyFixes fmt pass x) s = s" for s
    by (rule UnaryExpr.IH) (rule UnaryExpr.prems, rule subnodes_child [of x], simp_all)
  then show ?case by (simp add: walk_UnaryExpr)
next
  case (CallExpr r f args)
  have f: "Nodes nodeTypes (visit fmt' pass' mode) (applyFixes fmt pass f) s = s" for s
    by (rule CallExpr.IH(1)) (rule CallExpr.prems, rule subnodes_child [of f], simp_all)
  have "Nodes nodeTypes (visit fmt' pass' mode) (applyFixes fmt pass c) s = s"
    if "c \<in> set args" for c s
    using that
    by (rule CallExpr.IH(2)) (rule CallExpr.prems, rule subnodes_child [of c], simp_all add: that)
  then have "fold (Nodes nodeTypes (visit fmt' pass' mode)) (map (applyFixes fmt pass) args) s = s"
    for s by (rule fold_walk_id)
  with f show ?case by (simp add: walk_CallExpr)
next
  case (AssignStmt r lhs rhs)
  show ?case
  proof (cases "\<exists>l \<in> set lhs. isSelectorExpr l")
    case True
    then show ?thesis by (simp add: walk_AssignStmt)
  next
    case False
    have c: "Nodes nodeTypes (visit fmt' pass' mode) (applyFixes fmt pass c) s = s"
      if "c \<in> set lhs \<or> c \<in> set rhs" for c s
    proof -
      have "c \<in> set (children (AssignStmt r lhs rhs))"
        using that by auto
      then have sub: "e \<in> set (subnodes c) \<Longrightarrow> e \<in> set (subnodes (AssignStmt r lhs rhs))" for e
        by (rule subnodes_child)
      from that show ?thesis
      proof
        assume "c \<in> set lhs"
        then show ?thesis by (rule AssignStmt.IH(1)) (rule AssignStmt.prems, rule sub)
      next
        assume "c \<in> set rhs"
        then show ?thesis by (rule AssignStmt.IH(2)) (rule AssignStmt.prems, rule sub)
      qed
    qed
    have l: "fold (Nodes nodeTypes (visit fmt' pass' mode)) (map (applyFixes fmt pass) lhs) s = s"
      for s by (rule fold_walk_id) (simp add: c)
    have r: "fold (Nodes nodeTypes (visit fmt' pass' mode)) (map (applyFixes fmt pass) rhs) s = s"
      for s by (rule fold_walk_id) (simp add: c)
    have "\<not> (\<exists>l \<in> set (map (applyFixes fmt pass) lhs). isSelectorExpr l)"
      using False by (auto dest: isSelectorExpr_applyFixes)
    with False l r show ?thesis by (simp add: walk_AssignStmt)
  qed
next
  case (IncDecStmt r x)
  show ?case by (simp add: walk_IncDecStmt)
next
  case (OtherNode r cs)
  have "Nodes nodeTypes (visit fmt' pass' mode) (applyFixes fmt pass c) s = s"
    if "c \<in> set cs" for c s
    using that
    by (rule OtherNode.IH) (rule OtherNode.prems, rule subnodes_child [of c], simp_all add: that)
  then have "fold (Nodes nodeTypes (visit fmt' pass' mode)) (map (applyFixes fmt pass) cs) s = s"
    for s by (rule fold_walk_id)
  then show ?case by (simp add: walk_OtherNode)
qed


lemma isGeneratedFile_applyFixes_File:
  "isGeneratedFile (applyFixes_File fmt pass f) = isGeneratedFile f"
  by (simp add: applyFixes_File_def isGeneratedFile_def)

lemma Run_applyFixes:
  assumes "\<And>f d e m. f \<in> set (Files pass) \<Longrightarrow> d \<in> set (Decls f) \<Longrightarrow> e \<in> set (subnodes d) \<Longrightarrow>
             methodExists info' (applyFixes fmt pass e) m = methodExists (TypesInfo pass) e m"
  shows "Run fmt' \<lparr>Files = map (applyFixes_File fmt pass) (Files pass), TypesInfo = info'\<rparr> mode
           = no_output"
proof -
  define pass' where "pass' = \<lparr>Files = map (applyFixes_File fmt pass) (Files pass), TypesInfo = info'\<rparr>"
  have info: "TypesInfo pass' = info'" by (simp add: pass'_def)
  have decls: "fold (Nodes nodeTypes (visit fmt' pass' mode)) (Decls (applyFixes_File fmt pass f)) s = s"
    if "f \<in> set (Files pass)" "\<not> isGeneratedFile f" for f s
  proof -
    have "Nodes nodeTypes (visit fmt' pass' mode) (applyFixes fmt pass d) s' = s'"
      if "d \<in> set (Decls f)" for d s'
      by (rule walk_applyFixes) (simp add: info assms [OF \<open>f \<in> set (Files pass)\<close> that])
    then have "fold (Nodes nodeTypes (visit fmt' pass' mode)) (map (applyFixes fmt pass) (Decls f)) s = s"
      by (rule fold_walk_id)
    with that(2) show ?thesis by (simp add: applyFixes_File_def)
  qed
  have "fold (\<lambda>f. fold (Nodes nodeTypes (visit fmt' pass' mode)) (Decls f))
          (filter (\<lambda>f. \<not> isGeneratedFile f) (map (applyFixes_File fmt pass) fs)) s = s"
    if "set fs \<subseteq> set (Files pass)" for fs s
    using that
    by (induction fs arbitrary: s) (simp_all add: isGeneratedFile_applyFixes_File decls)
  from this [of "Files pass"] show ?thesis
    by (simp add: Run_def no_output_def pass'_def)
qed

definition msg_GetName :: node where
  "msg_GetName =
     CallExpr (0, 8) (SelectorExpr (0, 8) (Ident (0, 3) ''msg'') (Some ((4, 8), ''GetName''))) []"

lemma ex_applyFixes: "applyFixes exprString (ex_pass\<lparr>Files := fs\<rparr>) msg_Name = msg_GetName"
  using ex_msg_Name_report
  by (simp add: msg_Name_def msg_GetName_def analyzeSelectorExpr_Files msg_Name_report_def)

lemma ex_subnodes:
  "subnodes msg_Name = [msg_Name, Ident (0, 3) ''msg'', Ident (4, 8) ''Name'']"
  by (simp add: msg_Name_def subnodes.simps)

text \<open>
  Claim C5. A selector whose identifier begins with \<^verbatim>\<open>Get\<close> yields no finding. Hence the
  rewrite is idempotent: run on the program with all fixes applied, whose expressions
  have the methods of the expressions they replace, the analysis reports nothing.
\<close>

theorem getter_guard_and_idempotence:
  "(prefix ''Get'' name \<longrightarrow>
      analyzeSelectorExpr fmt pass r x (Some (p, name)) = None
      \<and> Nodes nodeTypes (visit fmt pass mode) (SelectorExpr r x (Some (p, name))) out
          = Nodes nodeTypes (visit fmt pass mode) x out)
   \<and> ((\<forall>f \<in> set (Files pass). \<forall>d \<in> set (Decls f). \<forall>e \<in> set (subnodes d). \<forall>m.
          methodExists info' (applyFixes fmt pass e) m = methodExists (TypesInfo pass) e m)
       \<longrightarrow> Run fmt' \<lparr>Files = map (applyFixes_File fmt pass) (Files pass), TypesInfo = info'\<rparr> mode
             = no_output)"
proof (intro conjI impI)
  assume "prefix ''Get'' name"
  then show a: "analyzeSelectorExpr fmt pass r x (Some (p, name)) = None"
    by (rule analyzeSelectorExpr_Get)
  show "Nodes nodeTypes (visit fmt pass mode) (SelectorExpr r x (Some (p, name))) out
          = Nodes nodeTypes (visit fmt pass mode) x out"
    by (simp add: walk_SelectorExpr a)
next
  assume "\<forall>f \<in> set (Files pass). \<forall>d \<in> set (Decls f). \<forall>e \<in> set (subnodes d). \<forall>m.
          methodExists info' (applyFixes fmt pass e) m = methodExists (TypesInfo pass) e m"
  then show "Run fmt' \<lparr>Files = map (applyFixes_File fmt pass) (Files pass), TypesInfo = info'\<rparr> mode
             = no_output"
    by (intro Run_applyFixes) blast
qed

theorem getter_guard_and_idempotence_witness:
  "prefix ''Get'' ''GetName''
   \<and> analyzeSelectorExpr exprString ex_pass (0, 8) (Ident (0, 3) ''msg'') (Some ((4, 8), ''GetName''))
       = None
   \<and> Run exprString (ex_pass\<lparr>Files := [plain_file]\<rparr>) StandaloneMode
       = \<lparr>diagnostics = [msg_Name_report], issues = []\<rparr>
   \<and> map (applyFixes_File exprString (ex_pass\<lparr>Files := [plain_file]\<rparr>)) [plain_file]
       = [plain_file\<lparr>Decls := [msg_GetName]\<rparr>]
   \<and> Run exprString \<lparr>Files = [plain_file\<lparr>Decls := [msg_GetName]\<rparr>], TypesInfo = Some ex_info\<rparr>
         StandaloneMode = no_output"
proof -
  let ?pass = "ex_pass\<lparr>Files := [plain_file]\<rparr>"
  have g: "\<not> isGeneratedFile plain_file"
    by (simp add: isGeneratedFile_def plain_file_def)
  have fx: "map (applyFixes_File exprString ?pass) [plain_file] = [plain_file\<lparr>Decls := [msg_GetName]\<rparr>]"
    by (simp add: applyFixes_File_def g) (simp add: plain_file_def ex_applyFixes)
  have h: "\<forall>f \<in> set (Files ?pass). \<forall>d \<in> set (Decls f). \<forall>e \<in> set (subnodes d). \<forall>m.
          methodExists (Some ex_info) (applyFixes exprString ?pass e) m
            = methodExists (TypesInfo ?pass) e m"
    by (simp add: plain_file_def ex_subnodes ex_applyFixes)
       (simp add: methodExists_def ex_pass_def ex_info_def msg_Name_def msg_GetName_def)
  have before: "Run exprString ?pass StandaloneMode = \<lparr>diagnostics = [msg_Name_report], issues = []\<rparr>"
    using ex_walk_msg_Name
    by (simp add: Run_def plain_file_def isGeneratedFile_def visit_Files no_output_def)
  show ?thesis
    using getter_guard_and_idempotence
            [of "''GetName''" exprString ex_pass "(0, 8)" "Ident (0, 3) ''msg''" "(4, 8)"
                StandaloneMode no_output "Some ex_info"]
          getter_guard_and_idempotence
            [of "''GetName''" exprString ?pass "(0, 8)" "Ident (0, 3) ''msg''" "(4, 8)"
                StandaloneMode no_output "Some ex_info" exprString]
          h fx before
    by simp
qed

section \<open>Second revision\<close>

subsection \<open>Reports and the two output adapters\<close>

text \<open>
  \<^verbatim>\<open>Result\<close> is declared with the processor, outside the source file; the adapters read
  its fields \<^verbatim>\<open>From\<close> and \<^verbatim>\<open>To\<close>.
\<close>

record Result =
  From :: string
  To :: string

record Report2 =
  node :: node
  result :: Result

record TextEdit =
  Pos :: int
  End :: int
  NewText :: string

record SuggestedFix =
  Message :: string
  TextEdits :: "TextEdit list"

record Diagnostic =
  Pos :: int
  End :: int
  Message :: string
  SuggestedFixes :: "SuggestedFix list"

record Position =
  Filename :: string
  Offset :: int
  Line :: int
  Column :: int

record InlineFix =
  StartCol :: int
  Length :: int
  NewString :: string

record Issue =
  Pos :: Position
  Message :: string
  InlineFix :: InlineFix

text \<open>\<^verbatim>\<open>token.FileSet\<close>, as far as it is used: \<^verbatim>\<open>fset.Position(pos)\<close>.\<close>

type_synonym FileSet = "int \<Rightarrow> Position"

text \<open>
  \<^verbatim>\<open>fmt.Sprintf(msgFormat, a, b)\<close> with the constant of the second revision,
  \<^verbatim>\<open>avoid direct access to proto field %q use %q\<close>. The verb \<^verbatim>\<open>%q\<close> quotes its argument
  as \<^verbatim>\<open>strconv.Quote\<close> does; the quoting function belongs to the Go library and is the
  parameter \<open>quote\<close>. (The constant of the first revision reads
  \<^verbatim>\<open>avoid direct access to proto field %s, use %s instead\<close>; nothing in the source file
  formats with it.)
\<close>

definition msgFormat2 :: "(string \<Rightarrow> string) \<Rightarrow> string \<Rightarrow> string \<Rightarrow> string" where
  "msgFormat2 quote a b = ''avoid direct access to proto field '' @ quote a @ '' use '' @ quote b"

definition ToDiagReport :: "(string \<Rightarrow> string) \<Rightarrow> Report2 \<Rightarrow> Diagnostic" where
  "ToDiagReport quote r =
     (let msg = msgFormat2 quote (Result.From (result r)) (Result.To (result r))
      in \<lparr> Diagnostic.Pos = fst (Range_of (node r)),
           Diagnostic.End = snd (Range_of (node r)),
           Diagnostic.Message = msg,
           SuggestedFixes =
             [\<lparr> SuggestedFix.Message = msg,
                 TextEdits =
                   [\<lparr> TextEdit.Pos = fst (Range_of (node r)),
                       TextEdit.End = snd (Range_of (node r)),
                       NewText = Result.To (result r) \<rparr>] \<rparr>] \<rparr>)"

definition ToIssue :: "(string \<Rightarrow> string) \<Rightarrow> FileSet \<Rightarrow> Report2 \<Rightarrow> Issue" where
  "ToIssue quote fset r =
     (let msg = msgFormat2 quote (Result.From (result r)) (Result.To (result r))
      in \<lparr> Issue.Pos = fset (fst (Range_of (node r))),
           Issue.Message = msg,
           InlineFix =
             \<lparr> StartCol = Column (fset (fst (Range_of (node r)))) - 1,
               Length = int (length (Result.From (result r))),
               NewString = Result.To (result r) \<rparr> \<rparr>)"

subsection \<open>The position filter\<close>

text \<open>
  Half-open source ranges: \<open>within r r'\<close> when \<open>r\<close> lies inside \<open>r'\<close>, \<open>disjoint r r'\<close>
  when they share no position.
\<close>

definition within :: "span \<Rightarrow> span \<Rightarrow> bool" where
  "within r r' = (fst r' \<le> fst r \<and> snd r \<le> snd r')"

definition disjoint :: "span \<Rightarrow> span \<Rightarrow> bool" where
  "disjoint r r' = (snd r \<le> fst r' \<or> snd r' \<le> fst r)"

fun disjoint_ranges :: "span list \<Rightarrow> bool" where
  "disjoint_ranges [] = True"
| "disjoint_ranges (r # rs) = (list_all (disjoint r) rs \<and> disjoint_ranges rs)"

text \<open>
  Modelled from the spec: \<^verbatim>\<open>PosFilter\<close> with \<^verbatim>\<open>NewPosFilter\<close>, \<^verbatim>\<open>IsFiltered\<close>,
  \<^verbatim>\<open>IsAlreadyReplaced\<close> and \<^verbatim>\<open>AddAlreadyReplaced\<close>, which the source file calls and does
  not define. The spec: a registry of the half-open ranges that have produced a finding,
  created empty, with the contract \<open>IsFiltered(pos)\<close>, \<open>IsAlreadyReplaced(range)\<close>,
  \<open>Register(range)\<close>; the test is a containment test that suppresses both a range
  nested in a registered one and a range enclosing one.
\<close>

record PosFilter =
  positions :: "int list"
  alreadyReplaced :: "span list"

text \<open>Modelled from the spec: \<^verbatim>\<open>NewPosFilter\<close>; the registry is created empty.\<close>

definition NewPosFilter :: PosFilter where
  "NewPosFilter = \<lparr>positions = [], alreadyReplaced = []\<rparr>"

text \<open>Modelled from the spec: \<^verbatim>\<open>IsFiltered\<close>, the contract \<open>IsFiltered(pos) -> bool\<close>.\<close>

definition IsFiltered :: "PosFilter \<Rightarrow> int \<Rightarrow> bool" where
  "IsFiltered f pos = (pos \<in> set (positions f))"

text \<open>
  Modelled from the spec: \<^verbatim>\<open>IsAlreadyReplaced\<close>, the containment test by which a match
  more deeply nested than a registered range, or enclosing one, is suppressed.
\<close>

definition IsAlreadyReplaced :: "PosFilter \<Rightarrow> span \<Rightarrow> bool" where
  "IsAlreadyReplaced f r = list_ex (\<lambda>r'. within r r' \<or> within r' r) (alreadyReplaced f)"

text \<open>
  Modelled from the spec: \<^verbatim>\<open>AddAlreadyReplaced\<close>, the contract \<open>Register(range)\<close>; nothing
  is removed.
\<close>

definition AddAlreadyReplaced :: "PosFilter \<Rightarrow> span \<Rightarrow> PosFilter" where
  "AddAlreadyReplaced f r = f\<lparr>alreadyReplaced := r # alreadyReplaced f\<rparr>"

subsection \<open>The analysis of one node\<close>

text \<open>
  \<^verbatim>\<open>Process\<close> and \<^verbatim>\<open>Result.Skipped\<close> belong to the processor, outside the source file:
  they are parameters. \<^verbatim>\<open>Process\<close> gets the filter and may change it; \<open>Inl\<close> is its
  error, with the text \<^verbatim>\<open>%v\<close> prints.
\<close>

type_synonym processor = "types_Info option \<Rightarrow> PosFilter \<Rightarrow> node \<Rightarrow> (string + Result) \<times> PosFilter"

text \<open>
  \<open>analyse\<close> answers the report, if any, the filter as it leaves it, and what it handed
  to \<^verbatim>\<open>pass.Report\<close> itself.
\<close>

definition analyse ::
  "processor \<Rightarrow> (Result \<Rightarrow> bool) \<Rightarrow> Pass \<Rightarrow> PosFilter \<Rightarrow> node
     \<Rightarrow> Report2 option \<times> PosFilter \<times> Diagnostic list" where
  "analyse Process Skipped pass flt n =
     (if IsFiltered flt (fst (Range_of n)) then (None, flt, [])
      else case Process (TypesInfo pass) flt n of
             (Inl err, flt1) \<Rightarrow>
               (None, flt1,
                [\<lparr> Diagnostic.Pos = fst (Range_of n),
                    Diagnostic.End = snd (Range_of n),
                    Diagnostic.Message = ''error: '' @ err,
                    SuggestedFixes = [] \<rparr>])
           | (Inr res, flt1) \<Rightarrow>
               if IsFiltered flt1 (fst (Range_of n)) then (None, flt1, [])
               else if Skipped res then (None, flt1, [])
               else if IsAlreadyReplaced flt1 (Range_of n) then (None, flt1, [])
               else (Some \<lparr>node = n, result = res\<rparr>,
                     AddAlreadyReplaced flt1 (Range_of n), []))"

subsection \<open>The run\<close>

text \<open>
  \<^verbatim>\<open>inspector.Preorder(types, f)\<close> calls \<open>f\<close> on every node of a listed type, depth first,
  a node before its children: \<open>Preorder types n\<close> is the sequence of these calls below
  \<open>n\<close>.
\<close>

function Preorder :: "(node \<Rightarrow> bool) \<Rightarrow> node \<Rightarrow> node list" where
  "Preorder types n = (if types n then [n] else []) @ concat (map (Preorder types) (children n))"
  by pat_completeness auto
termination
  by (relation "measure (\<lambda>(types, n). size n)") (auto simp: size_children)

declare Preorder.simps [simp del]

fun nodeTypes2 :: "node \<Rightarrow> bool" where
  "nodeTypes2 (AssignStmt _ _ _) = True"
| "nodeTypes2 (CallExpr _ _ _) = True"
| "nodeTypes2 (SelectorExpr _ _ _) = True"
| "nodeTypes2 (IncDecStmt _ _) = True"
| "nodeTypes2 (UnaryExpr _ _ _) = True"
| "nodeTypes2 _ = False"

text \<open>
  The state of a run: the filter, what \<^verbatim>\<open>pass.Report\<close> received, the issues, and, as a
  history of the run, the reports \<open>analyse\<close> returned (the accepted findings).
\<close>

record State2 =
  posFilter :: PosFilter
  reported :: "Diagnostic list"
  issues2 :: "Issue list"
  accepted :: "Report2 list"

definition visit2 ::
  "processor \<Rightarrow> (Result \<Rightarrow> bool) \<Rightarrow> (string \<Rightarrow> string) \<Rightarrow> FileSet \<Rightarrow> Pass \<Rightarrow> Mode
     \<Rightarrow> node \<Rightarrow> State2 \<Rightarrow> State2" where
  "visit2 Process Skipped quote fset pass mode n st =
     (case analyse Process Skipped pass (posFilter st) n of
        (None, flt, ds) \<Rightarrow> st\<lparr>posFilter := flt, reported := reported st @ ds\<rparr>
      | (Some report, flt, ds) \<Rightarrow>
          (case mode of
             StandaloneMode \<Rightarrow>
               st\<lparr>posFilter := flt,
                  reported := reported st @ ds @ [ToDiagReport quote report],
                  accepted := accepted st @ [report]\<rparr>
           | GolangciLintMode \<Rightarrow>
               st\<lparr>posFilter := flt,
                  reported := reported st @ ds,
                  issues2 := issues2 st @ [ToIssue quote fset report],
                  accepted := accepted st @ [report]\<rparr>))"

definition visited :: "Pass \<Rightarrow> node list" where
  "visited pass =
     concat (map (\<lambda>f. concat (map (Preorder nodeTypes2) (Decls f)))
               (filter (\<lambda>f. \<not> isGeneratedFile f) (Files pass)))"

definition Run2 ::
  "processor \<Rightarrow> (Result \<Rightarrow> bool) \<Rightarrow> (string \<Rightarrow> string) \<Rightarrow> FileSet \<Rightarrow> Pass \<Rightarrow> Mode
     \<Rightarrow> State2" where
  "Run2 Process Skipped quote fset pass mode =
     fold (visit2 Process Skipped quote fset pass mode) (visited pass)
       \<lparr>posFilter = NewPosFilter, reported = [], issues2 = [], accepted = []\<rparr>"

subsection \<open>A concrete processor\<close>

text \<open>
  For the concrete runs below: a processor that proposes the getter for every selector
  whose base \<open>exprString\<close> prints, fails where it does not print, and skips every other
  node; a quoting function for strings that need no escape; a file set of one file with
  one line.
\<close>

definition ex_Process :: processor where
  "ex_Process info flt n =
     (case n of
        SelectorExpr r x (Some (p, name)) \<Rightarrow>
          (case exprString x of
             Inl err \<Rightarrow> (Inl err, flt)
           | Inr base \<Rightarrow>
               (Inr \<lparr>Result.From = base @ ''.'' @ name,
                     Result.To = base @ ''.Get'' @ name @ ''()''\<rparr>, flt))
      | _ \<Rightarrow> (Inr \<lparr>Result.From = [], Result.To = []\<rparr>, flt))"

definition ex_Skipped :: "Result \<Rightarrow> bool" where
  "ex_Skipped res = (Result.To res = [])"

definition msg_Inner :: node where
  "msg_Inner = SelectorExpr (0, 9) (Ident (0, 3) ''msg'') (Some ((4, 9), ''Inner''))"

definition msg_Inner_Name :: node where
  "msg_Inner_Name = SelectorExpr (0, 14) msg_Inner (Some ((10, 14), ''Name''))"

definition other_Name :: node where
  "other_Name = SelectorExpr (20, 28) (Ident (20, 23) ''msg'') (Some ((24, 28), ''Name''))"

definition bad_Name :: node where
  "bad_Name = SelectorExpr (40, 47) (OtherNode (40, 42) []) (Some ((43, 47), ''Name''))"

definition plain_quote :: "string \<Rightarrow> string" where
  "plain_quote s = [CHR 0x22] @ s @ [CHR 0x22]"

definition ex_fset :: FileSet where
  "ex_fset pos = \<lparr>Filename = ''demo.go'', Offset = pos, Line = 1, Column = pos + 1\<rparr>"

definition msg_Name_report2 :: Report2 where
  "msg_Name_report2 =
     \<lparr>node = msg_Name, result = \<lparr>Result.From = ''msg.Name'', Result.To = ''msg.GetName()''\<rparr>\<rparr>"

subsection \<open>Second revision: the adapters agree\<close>

text \<open>
  Claim C6. For every report, the diagnostic of \<^verbatim>\<open>ToDiagReport\<close> and the issue of
  \<^verbatim>\<open>ToIssue\<close> carry the same message, the text
  \<^verbatim>\<open>avoid direct access to proto field %q use %q\<close> with the report's \<open>From\<close> and \<open>To\<close>
  quoted in place of the two verbs; the suggested fix carries this message too.
\<close>

theorem adapters_same_message:
  "Diagnostic.Message (ToDiagReport quote r) = Issue.Message (ToIssue quote fset r)
   \<and> Issue.Message (ToIssue quote fset r)
       = ''avoid direct access to proto field '' @ quote (Result.From (result r))
           @ '' use '' @ quote (Result.To (result r))
   \<and> map SuggestedFix.Message (SuggestedFixes (ToDiagReport quote r))
       = [Issue.Message (ToIssue quote fset r)]"
  by (simp add: ToDiagReport_def ToIssue_def msgFormat2_def Let_def)

theorem adapters_same_message_witness:
  "Diagnostic.Message (ToDiagReport plain_quote msg_Name_report2)
     = ''avoid direct access to proto field '' @ [CHR 0x22] @ ''msg.Name'' @ [CHR 0x22]
         @ '' use '' @ [CHR 0x22] @ ''msg.GetName()'' @ [CHR 0x22]
   \<and> Issue.Message (ToIssue plain_quote ex_fset msg_Name_report2)
     = ''avoid direct access to proto field '' @ [CHR 0x22] @ ''msg.Name'' @ [CHR 0x22]
         @ '' use '' @ [CHR 0x22] @ ''msg.GetName()'' @ [CHR 0x22]"
  using adapters_same_message [of plain_quote msg_Name_report2 ex_fset]
  by (simp add: plain_quote_def msg_Name_report2_def)

subsection \<open>Second revision: the registry of replaced ranges\<close>

text \<open>
  The ranges of the nodes of a syntax forest are laminar: any two of them are nested or
  disjoint.
\<close>

definition laminar :: "span list \<Rightarrow> bool" where
  "laminar rs = list_all (\<lambda>r. list_all (\<lambda>r'. within r r' \<or> within r' r \<or> disjoint r r') rs) rs"

lemma analyse_cases:
  assumes "analyse Process Skipped pass flt n = (rep, flt', ds)"
  shows "(rep = None \<and> (flt' = flt \<or> flt' = snd (Process (TypesInfo pass) flt n)))
         \<or> (\<exists>res. rep = Some \<lparr>node = n, result = res\<rparr>
               \<and> \<not> IsAlreadyReplaced (snd (Process (TypesInfo pass) flt n)) (Range_of n)
               \<and> flt' = AddAlreadyReplaced (snd (Process (TypesInfo pass) flt n)) (Range_of n))"
proof (cases "Process (TypesInfo pass) flt n")
  case (Pair a flt1)
  with assms show ?thesis
    by (cases a) (auto simp: analyse_def split: if_splits)
qed

lemma analyse_registry_grows:
  assumes mono: "\<And>info f m. set (alreadyReplaced f) \<subseteq> set (alreadyReplaced (snd (Process info f m)))"
    and a: "analyse Process Skipped pass flt n = (rep, flt', ds)"
  shows "set (alreadyReplaced flt) \<subseteq> set (alreadyReplaced flt')"
  using analyse_cases [OF a] mono [of flt "TypesInfo pass" n]
  by (auto simp: AddAlreadyReplaced_def)

lemma visit2_posFilter:
  "analyse Process Skipped pass (posFilter st) n = (rep, flt', ds) \<Longrightarrow>
     posFilter (visit2 Process Skipped quote fset pass mode n st) = flt'"
  by (cases rep; cases mode) (simp_all add: visit2_def)

lemma visit2_accepted:
  "analyse Process Skipped pass (posFilter st) n = (rep, flt', ds) \<Longrightarrow>
     accepted (visit2 Process Skipped quote fset pass mode n st)
       = accepted st @ (case rep of None \<Rightarrow> [] | Some r \<Rightarrow> [r])"
  by (cases rep; cases mode) (simp_all add: visit2_def)

lemma visit2_registry_grows:
  assumes "\<And>info f m. set (alreadyReplaced f) \<subseteq> set (alreadyReplaced (snd (Process info f m)))"
  shows "set (alreadyReplaced (posFilter st))
           \<subseteq> set (alreadyReplaced (posFilter (visit2 Process Skipped quote fset pass mode n st)))"
proof -
  obtain rep flt' ds where a: "analyse Process Skipped pass (posFilter st) n = (rep, flt', ds)"
    by (cases "analyse Process Skipped pass (posFilter st) n") auto
  show ?thesis
    using analyse_registry_grows [OF assms a] by (simp add: visit2_posFilter [OF a])
qed

lemma fold_visit2_registry_grows:
  assumes "\<And>info f m. set (alreadyReplaced f) \<subseteq> set (alreadyReplaced (snd (Process info f m)))"
  shows "set (alreadyReplaced (posFilter st))
           \<subseteq> set (alreadyReplaced (posFilter (fold (visit2 Process Skipped quote fset pass mode) ns st)))"
proof (induction ns arbitrary: st)
  case Nil
  show ?case by simp
next
  case (Cons n ns)
  have "set (alreadyReplaced (posFilter st))
          \<subseteq> set (alreadyReplaced (posFilter (visit2 Process Skipped quote fset pass mode n st)))"
    by (rule visit2_registry_grows [OF assms])
  also have "\<dots> \<subseteq> set (alreadyReplaced (posFilter
      (fold (visit2 Process Skipped quote fset pass mode) ns
         (visit2 Process Skipped quote fset pass mode n st))))"
    by (rule Cons.IH)
  finally show ?case by simp
qed

lemma disjoint_sym: "disjoint r r' \<Longrightarrow> disjoint r' r"
  by (auto simp: disjoint_def)

lemma disjoint_ranges_snoc:
  "disjoint_ranges (rs @ [r]) = (disjoint_ranges rs \<and> list_all (\<lambda>r'. disjoint r' r) rs)"
  by (induction rs) auto

definition accepted_inv :: "span set \<Rightarrow> State2 \<Rightarrow> bool" where
  "accepted_inv R st =
     (disjoint_ranges (map (Range_of \<circ> node) (accepted st))
      \<and> (Range_of \<circ> node) ` set (accepted st) \<subseteq> set (alreadyReplaced (posFilter st))
      \<and> (Range_of \<circ> node) ` set (accepted st) \<subseteq> R)"

lemma visit2_accepted_inv:
  assumes mono: "\<And>info f m. set (alreadyReplaced f) \<subseteq> set (alreadyReplaced (snd (Process info f m)))"
    and lam: "\<And>r r'. r \<in> R \<Longrightarrow> r' \<in> R \<Longrightarrow> within r r' \<or> within r' r \<or> disjoint r r'"
    and inv: "accepted_inv R st"
    and n: "Range_of n \<in> R"
  shows "accepted_inv R (visit2 Process Skipped quote fset pass mode n st)"
proof -
  obtain rep flt' ds where a: "analyse Process Skipped pass (posFilter st) n = (rep, flt', ds)"
    by (cases "analyse Process Skipped pass (posFilter st) n") auto
  note pf = visit2_posFilter [OF a] and ac = visit2_accepted [OF a]
  have grow: "set (alreadyReplaced (posFilter st)) \<subseteq> set (alreadyReplaced flt')"
    by (rule analyse_registry_grows [OF mono a])
  show ?thesis
  proof (cases rep)
    case None
    with inv grow show ?thesis
      by (auto simp: accepted_inv_def pf ac)
  next
    case (Some report)
    let ?flt1 = "snd (Process (TypesInfo pass) (posFilter st) n)"
    from analyse_cases [OF a] Some obtain res where
      rep: "report = \<lparr>node = n, result = res\<rparr>"
      and fresh: "\<not> IsAlreadyReplaced ?flt1 (Range_of n)"
      and flt': "flt' = AddAlreadyReplaced ?flt1 (Range_of n)"
      by auto
    have old: "disjoint r' (Range_of n)" if "r' \<in> (Range_of \<circ> node) ` set (accepted st)" for r'
    proof -
      from that inv have "r' \<in> set (alreadyReplaced (posFilter st))" and "r' \<in> R"
        by (auto simp: accepted_inv_def)
      with mono [of "posFilter st" "TypesInfo pass" n] have "r' \<in> set (alreadyReplaced ?flt1)"
        by auto
      with fresh have "\<not> within (Range_of n) r'" and "\<not> within r' (Range_of n)"
        by (auto simp: IsAlreadyReplaced_def list_ex_iff)
      with lam [OF \<open>r' \<in> R\<close> n] show ?thesis by auto
    qed
    then have "list_all (\<lambda>r'. disjoint r' (Range_of n)) (map (Range_of \<circ> node) (accepted st))"
      by (auto simp: list_all_iff)
    with inv grow n show ?thesis
      by (auto simp: accepted_inv_def pf ac Some rep disjoint_ranges_snoc flt'
          AddAlreadyReplaced_def)
  qed
qed

lemma fold_visit2_accepted_inv:
  assumes mono: "\<And>info f m. set (alreadyReplaced f) \<subseteq> set (alreadyReplaced (snd (Process info f m)))"
    and lam: "\<And>r r'. r \<in> R \<Longrightarrow> r' \<in> R \<Longrightarrow> within r r' \<or> within r' r \<or> disjoint r r'"
    and inv: "accepted_inv R st"
    and ns: "Range_of ` set ns \<subseteq> R"
  shows "accepted_inv R (fold (visit2 Process Skipped quote fset pass mode) ns st)"
  using inv ns
proof (induction ns arbitrary: st)
  case Nil
  then show ?case by simp
next
  case (Cons n ns)
  have "accepted_inv R (visit2 Process Skipped quote fset pass mode n st)"
    using Cons.prems by (intro visit2_accepted_inv [OF mono lam]) auto
  then show ?case using Cons.prems by (simp add: Cons.IH)
qed

lemma Run2_disjoint:
  assumes mono: "\<And>info f m. set (alreadyReplaced f) \<subseteq> set (alreadyReplaced (snd (Process info f m)))"
    and lam: "laminar (map Range_of (visited pass))"
  shows "disjoint_ranges (map (Range_of \<circ> node) (accepted (Run2 Process Skipped quote fset pass mode)))"
proof -
  let ?R = "Range_of ` set (visited pass)"
  have l: "within r r' \<or> within r' r \<or> disjoint r r'" if "r \<in> ?R" "r' \<in> ?R" for r r'
    using lam that by (auto simp: laminar_def list_all_iff)
  have "accepted_inv ?R \<lparr>posFilter = NewPosFilter, reported = [], issues2 = [], accepted = []\<rparr>"
    by (simp add: accepted_inv_def)
  then have "accepted_inv ?R (Run2 Process Skipped quote fset pass mode)"
    unfolding Run2_def by (intro fold_visit2_accepted_inv [OF mono l]) auto
  then show ?thesis by (simp add: accepted_inv_def)
qed

lemma Preorder_Ident: "Preorder nodeTypes2 (Ident r name) = []"
  by (subst Preorder.simps) simp

lemma Preorder_SelectorExpr:
  "Preorder nodeTypes2 (SelectorExpr r x sel) = SelectorExpr r x sel # Preorder nodeTypes2 x"
  by (subst Preorder.simps) (auto simp: Preorder_Ident split: option.splits)

lemma nested_selectors_one_finding:
  assumes mono: "\<And>info f m. set (alreadyReplaced f) \<subseteq> set (alreadyReplaced (snd (Process info f m)))"
    and p: "Process (TypesInfo pass) NewPosFilter (SelectorExpr r1 (SelectorExpr r2 (Ident r0 a) selB) selC)
              = (Inr res, flt1)"
    and ok: "\<not> Skipped res" "\<not> IsFiltered flt1 (fst r1)" "\<not> IsAlreadyReplaced flt1 r1"
    and nest: "within r2 r1"
  shows "accepted (Run2 Process Skipped quote fset
            (pass\<lparr>Files := [\<lparr>Comments = [], Decls = [SelectorExpr r1 (SelectorExpr r2 (Ident r0 a) selB) selC]\<rparr>]\<rparr>)
            mode)
           = [\<lparr>node = SelectorExpr r1 (SelectorExpr r2 (Ident r0 a) selB) selC, result = res\<rparr>]"
proof -
  let ?abc = "SelectorExpr r1 (SelectorExpr r2 (Ident r0 a) selB) selC"
  let ?ab = "SelectorExpr r2 (Ident r0 a) selB"
  let ?pass = "pass\<lparr>Files := [\<lparr>Comments = [], Decls = [?abc]\<rparr>]\<rparr>"
  let ?st0 = "\<lparr>posFilter = NewPosFilter, reported = [], issues2 = [], accepted = []\<rparr>"
  let ?v = "visit2 Process Skipped quote fset ?pass mode"
  have vis: "visited ?pass = [?abc, ?ab]"
    by (simp add: visited_def isGeneratedFile_def Preorder_SelectorExpr Preorder_Ident)
  have a1: "analyse Process Skipped ?pass (posFilter ?st0) ?abc
              = (Some \<lparr>node = ?abc, result = res\<rparr>, AddAlreadyReplaced flt1 r1, [])"
    using p ok by (simp add: analyse_def IsFiltered_def NewPosFilter_def)
  have s1: "posFilter (?v ?abc ?st0) = AddAlreadyReplaced flt1 r1"
    and c1: "accepted (?v ?abc ?st0) = [\<lparr>node = ?abc, result = res\<rparr>]"
    using visit2_posFilter [OF a1] visit2_accepted [OF a1] by simp_all
  obtain rep flt' ds where a2: "analyse Process Skipped ?pass (posFilter (?v ?abc ?st0)) ?ab = (rep, flt', ds)"
    by (cases "analyse Process Skipped ?pass (posFilter (?v ?abc ?st0)) ?ab") auto
  have "r1 \<in> set (alreadyReplaced (snd (Process (TypesInfo ?pass) (posFilter (?v ?abc ?st0)) ?ab)))"
    using mono [of "posFilter (?v ?abc ?st0)" "TypesInfo ?pass" ?ab]
    by (auto simp: s1 AddAlreadyReplaced_def)
  with nest have "IsAlreadyReplaced (snd (Process (TypesInfo ?pass) (posFilter (?v ?abc ?st0)) ?ab)) (Range_of ?ab)"
    by (auto simp: IsAlreadyReplaced_def list_ex_iff)
  with analyse_cases [OF a2] have "rep = None" by auto
  with visit2_accepted [OF a2] c1
  have "accepted (?v ?ab (?v ?abc ?st0)) = [\<lparr>node = ?abc, result = res\<rparr>]" by simp
  then show ?thesis by (simp add: Run2_def vis)
qed

lemma ex_Process_mono:
  "\<forall>info f m. set (alreadyReplaced f) \<subseteq> set (alreadyReplaced (snd (ex_Process info f m)))"
  by (auto simp: ex_Process_def split: node.splits option.splits sum.splits)

lemma ex_Run2_nested:
  "Run2 ex_Process ex_Skipped plain_quote ex_fset
      (ex_pass\<lparr>Files := [\<lparr>Comments = [], Decls = [msg_Inner_Name, other_Name]\<rparr>]\<rparr>) GolangciLintMode
   = \<lparr>posFilter = \<lparr>positions = [], alreadyReplaced = [(20, 28), (0, 14)]\<rparr>,
      reported = [],
      issues2 =
        [ToIssue plain_quote ex_fset
           \<lparr>node = msg_Inner_Name,
            result = \<lparr>Result.From = ''msg.Inner.Name'', Result.To = ''msg.Inner.GetName()''\<rparr>\<rparr>,
         ToIssue plain_quote ex_fset
           \<lparr>node = other_Name,
            result = \<lparr>Result.From = ''msg.Name'', Result.To = ''msg.GetName()''\<rparr>\<rparr>],
      accepted =
        [\<lparr>node = msg_Inner_Name,
          result = \<lparr>Result.From = ''msg.Inner.Name'', Result.To = ''msg.Inner.GetName()''\<rparr>\<rparr>,
         \<lparr>node = other_Name,
          result = \<lparr>Result.From = ''msg.Name'', Result.To = ''msg.GetName()''\<rparr>\<rparr>]\<rparr>"
  by (simp add: Run2_def visited_def isGeneratedFile_def Preorder_SelectorExpr Preorder_Ident
      msg_Inner_Name_def msg_Inner_def other_Name_def visit2_def analyse_def ex_Process_def
      ex_Skipped_def IsFiltered_def IsAlreadyReplaced_def AddAlreadyReplaced_def
      NewPosFilter_def within_def)

text \<open>
  Claim C2. Let the processor never remove a range from the registry. Then the ranges of
  the findings accepted in one run over a syntax forest are pairwise disjoint; a range
  in the registry stays there however the run goes on; and for a nested access
  \<^verbatim>\<open>a.B.C\<close> whose outer selector qualifies, the run accepts exactly one finding, the
  one for \<^verbatim>\<open>a.B.C\<close>, which the pre-order walk visits before \<^verbatim>\<open>a.B\<close>.
\<close>

theorem no_overlapping_findings:
  assumes "\<forall>info f m. set (alreadyReplaced f) \<subseteq> set (alreadyReplaced (snd (Process info f m)))"
  shows "(laminar (map Range_of (visited pass)) \<longrightarrow>
            disjoint_ranges (map (Range_of \<circ> node)
              (accepted (Run2 Process Skipped quote fset pass mode))))
         \<and> set (alreadyReplaced (posFilter st))
             \<subseteq> set (alreadyReplaced (posFilter
                 (fold (visit2 Process Skipped quote fset pass mode) ns st)))
         \<and> (Process (TypesInfo pass) NewPosFilter
               (SelectorExpr r1 (SelectorExpr r2 (Ident r0 a) selB) selC) = (Inr res, flt1)
             \<and> \<not> Skipped res \<and> \<not> IsFiltered flt1 (fst r1) \<and> \<not> IsAlreadyReplaced flt1 r1
             \<and> within r2 r1
            \<longrightarrow> accepted (Run2 Process Skipped quote fset
                   (pass\<lparr>Files := [\<lparr>Comments = [],
                       Decls = [SelectorExpr r1 (SelectorExpr r2 (Ident r0 a) selB) selC]\<rparr>]\<rparr>)
                   mode)
                 = [\<lparr>node = SelectorExpr r1 (SelectorExpr r2 (Ident r0 a) selB) selC,
                     result = res\<rparr>])"
proof -
  have mono: "set (alreadyReplaced f) \<subseteq> set (alreadyReplaced (snd (Process info f m)))"
    for info f m using assms by blast
  show ?thesis
  proof (intro conjI impI)
    assume "laminar (map Range_of (visited pass))"
    with mono show "disjoint_ranges (map (Range_of \<circ> node)
              (accepted (Run2 Process Skipped quote fset pass mode)))"
      by (rule Run2_disjoint)
  next
    show "set (alreadyReplaced (posFilter st))
             \<subseteq> set (alreadyReplaced (posFilter
                 (fold (visit2 Process Skipped quote fset pass mode) ns st)))"
      by (rule fold_visit2_registry_grows [OF mono])
  next
    assume "Process (TypesInfo pass) NewPosFilter
               (SelectorExpr r1 (SelectorExpr r2 (Ident r0 a) selB) selC) = (Inr res, flt1)
             \<and> \<not> Skipped res \<and> \<not> IsFiltered flt1 (fst r1) \<and> \<not> IsAlreadyReplaced flt1 r1
             \<and> within r2 r1"
    then show "accepted (Run2 Process Skipped quote fset
                   (pass\<lparr>Files := [\<lparr>Comments = [],
                       Decls = [SelectorExpr r1 (SelectorExpr r2 (Ident r0 a) selB) selC]\<rparr>]\<rparr>)
                   mode)
                 = [\<lparr>node = SelectorExpr r1 (SelectorExpr r2 (Ident r0 a) selB) selC,
                     result = res\<rparr>]"
      by (intro nested_selectors_one_finding [OF mono]) auto
  qed
qed

theorem no_overlapping_findings_witness:
  "fst (ex_Process (TypesInfo ex_pass) NewPosFilter msg_Inner)
     = Inr \<lparr>Result.From = ''msg.Inner'', Result.To = ''msg.GetInner()''\<rparr>
   \<and> fst (ex_Process (TypesInfo ex_pass) NewPosFilter msg_Inner_Name)
     = Inr \<lparr>Result.From = ''msg.Inner.Name'', Result.To = ''msg.Inner.GetName()''\<rparr>
   \<and> accepted (Run2 ex_Process ex_Skipped plain_quote ex_fset
        (ex_pass\<lparr>Files := [\<lparr>Comments = [], Decls = [msg_Inner_Name]\<rparr>]\<rparr>) StandaloneMode)
     = [\<lparr>node = msg_Inner_Name,
         result = \<lparr>Result.From = ''msg.Inner.Name'', Result.To = ''msg.Inner.GetName()''\<rparr>\<rparr>]
   \<and> map (Range_of \<circ> node) (accepted (Run2 ex_Process ex_Skipped plain_quote ex_fset
        (ex_pass\<lparr>Files := [\<lparr>Comments = [], Decls = [msg_Inner_Name, other_Name]\<rparr>]\<rparr>)
        GolangciLintMode))
     = [(0, 14), (20, 28)]
   \<and> disjoint_ranges [(0, 14), (20, 28)]"
proof -
  let ?pass2 = "ex_pass\<lparr>Files := [\<lparr>Comments = [], Decls = [msg_Inner_Name, other_Name]\<rparr>]\<rparr>"
  have lam: "laminar (map Range_of (visited ?pass2))"
    by (simp add: visited_def isGeneratedFile_def Preorder_SelectorExpr Preorder_Ident
        msg_Inner_Name_def msg_Inner_def other_Name_def laminar_def within_def disjoint_def)
  have p: "ex_Process (TypesInfo ex_pass) NewPosFilter
             (SelectorExpr (0, 14) (SelectorExpr (0, 9) (Ident (0, 3) ''msg'') (Some ((4, 9), ''Inner'')))
                (Some ((10, 14), ''Name'')))
           = (Inr \<lparr>Result.From = ''msg.Inner.Name'', Result.To = ''msg.Inner.GetName()''\<rparr>,
              NewPosFilter)"
    by (simp add: ex_Process_def)
  have q: "\<not> ex_Skipped \<lparr>Result.From = ''msg.Inner.Name'', Result.To = ''msg.Inner.GetName()''\<rparr>
           \<and> \<not> IsFiltered NewPosFilter (fst ((0, 14) :: span))
           \<and> \<not> IsAlreadyReplaced NewPosFilter (0, 14)
           \<and> within (0, 9) (0, 14)"
    by (simp add: ex_Skipped_def IsFiltered_def IsAlreadyReplaced_def NewPosFilter_def within_def)
  have d: "disjoint_ranges (map (Range_of \<circ> node)
              (accepted (Run2 ex_Process ex_Skipped plain_quote ex_fset ?pass2 GolangciLintMode)))"
    using no_overlapping_findings
            [OF ex_Process_mono, of ?pass2 ex_Skipped plain_quote ex_fset GolangciLintMode]
          lam
    by blast
  have n: "accepted (Run2 ex_Process ex_Skipped plain_quote ex_fset
        (ex_pass\<lparr>Files := [\<lparr>Comments = [], Decls = [msg_Inner_Name]\<rparr>]\<rparr>) StandaloneMode)
     = [\<lparr>node = msg_Inner_Name,
         result = \<lparr>Result.From = ''msg.Inner.Name'', Result.To = ''msg.Inner.GetName()''\<rparr>\<rparr>]"
    unfolding msg_Inner_Name_def msg_Inner_def
    using no_overlapping_findings
            [OF ex_Process_mono, of ex_pass ex_Skipped plain_quote ex_fset StandaloneMode _ _
                "(0, 14)" "(0, 9)" "(0, 3)" "''msg''" "Some ((4, 9), ''Inner'')"
                "Some ((10, 14), ''Name'')"
                "\<lparr>Result.From = ''msg.Inner.Name'', Result.To = ''msg.Inner.GetName()''\<rparr>"
                NewPosFilter]
          p q
    by blast
  have r: "map (Range_of \<circ> node) (accepted (Run2 ex_Process ex_Skipped plain_quote ex_fset
        ?pass2 GolangciLintMode)) = [(0, 14), (20, 28)]"
    by (simp add: ex_Run2_nested) (simp add: msg_Inner_Name_def other_Name_def)
  have e: "fst (ex_Process (TypesInfo ex_pass) NewPosFilter msg_Inner)
             = Inr \<lparr>Result.From = ''msg.Inner'', Result.To = ''msg.GetInner()''\<rparr>
           \<and> fst (ex_Process (TypesInfo ex_pass) NewPosFilter msg_Inner_Name)
             = Inr \<lparr>Result.From = ''msg.Inner.Name'', Result.To = ''msg.Inner.GetName()''\<rparr>"
    by (simp add: ex_Process_def msg_Inner_Name_def msg_Inner_def)
  from d have "disjoint_ranges [(0, 14), (20, 28)]"
    unfolding r .
  with e n r show ?thesis by blast
qed

subsection \<open>Second revision: a failed synthesis\<close>

text \<open>
  Claim C8. In the second revision \<^verbatim>\<open>Process\<close> synthesizes the texts of a finding. When
  it returns an error for a node, \<open>analyse\<close> hands \<^verbatim>\<open>pass.Report\<close> the diagnostic
  \<^verbatim>\<open>error: ...\<close> over the node's range and returns no report: the node gets no finding
  and no issue, whatever text was built, and the walk goes on with the nodes that follow.
\<close>

theorem process_error_is_reported:
  assumes "\<not> IsFiltered (posFilter st) (fst (Range_of n))"
    and "Process (TypesInfo pass) (posFilter st) n = (Inl err, flt')"
  shows "analyse Process Skipped pass (posFilter st) n
           = (None, flt',
              [\<lparr> Diagnostic.Pos = fst (Range_of n), Diagnostic.End = snd (Range_of n),
                  Diagnostic.Message = ''error: '' @ err, SuggestedFixes = [] \<rparr>])
         \<and> reported (visit2 Process Skipped quote fset pass mode n st)
           = reported st @
               [\<lparr> Diagnostic.Pos = fst (Range_of n), Diagnostic.End = snd (Range_of n),
                   Diagnostic.Message = ''error: '' @ err, SuggestedFixes = [] \<rparr>]
         \<and> accepted (visit2 Process Skipped quote fset pass mode n st) = accepted st
         \<and> issues2 (visit2 Process Skipped quote fset pass mode n st) = issues2 st
         \<and> fold (visit2 Process Skipped quote fset pass mode) (n # ns) st
           = fold (visit2 Process Skipped quote fset pass mode) ns
               (st\<lparr>posFilter := flt',
                   reported := reported st @
                     [\<lparr> Diagnostic.Pos = fst (Range_of n), Diagnostic.End = snd (Range_of n),
                         Diagnostic.Message = ''error: '' @ err, SuggestedFixes = [] \<rparr>]\<rparr>)"
  using assms by (simp add: analyse_def visit2_def)

theorem process_error_is_reported_witness:
  "\<not> IsFiltered NewPosFilter 40
   \<and> ex_Process (TypesInfo ex_pass) NewPosFilter bad_Name = (Inl ''unsupported node'', NewPosFilter)
   \<and> Run2 ex_Process ex_Skipped plain_quote ex_fset
        (ex_pass\<lparr>Files := [\<lparr>Comments = [], Decls = [bad_Name, other_Name]\<rparr>]\<rparr>) StandaloneMode
     = \<lparr>posFilter = \<lparr>positions = [], alreadyReplaced = [(20, 28)]\<rparr>,
        reported =
          [\<lparr> Diagnostic.Pos = 40, Diagnostic.End = 47,
              Diagnostic.Message = ''error: unsupported node'', SuggestedFixes = [] \<rparr>,
           ToDiagReport plain_quote
             \<lparr>node = other_Name,
              result = \<lparr>Result.From = ''msg.Name'', Result.To = ''msg.GetName()''\<rparr>\<rparr>],
        issues2 = [],
        accepted =
          [\<lparr>node = other_Name,
            result = \<lparr>Result.From = ''msg.Name'', Result.To = ''msg.GetName()''\<rparr>\<rparr>]\<rparr>"
proof -
  let ?pass = "ex_pass\<lparr>Files := [\<lparr>Comments = [], Decls = [bad_Name, other_Name]\<rparr>]\<rparr>"
  let ?st0 = "\<lparr>posFilter = NewPosFilter, reported = [], issues2 = [], accepted = []\<rparr>"
  have f: "\<not> IsFiltered (posFilter ?st0) (fst (Range_of bad_Name))"
    by (simp add: IsFiltered_def NewPosFilter_def)
  have p: "ex_Process (TypesInfo ?pass) (posFilter ?st0) bad_Name
             = (Inl ''unsupported node'', NewPosFilter)"
    by (simp add: ex_Process_def bad_Name_def)
  have vis: "visited ?pass = [bad_Name, other_Name]"
    by (simp add: visited_def isGeneratedFile_def bad_Name_def other_Name_def
        Preorder_SelectorExpr Preorder_Ident)
       (simp add: Preorder.simps)
  have rest: "visit2 ex_Process ex_Skipped plain_quote ex_fset ?pass StandaloneMode other_Name
                (?st0\<lparr>posFilter := NewPosFilter,
                   reported := reported ?st0 @
                     [\<lparr> Diagnostic.Pos = fst (Range_of bad_Name),
                         Diagnostic.End = snd (Range_of bad_Name),
                         Diagnostic.Message = ''error: '' @ ''unsupported node'',
                         SuggestedFixes = [] \<rparr>]\<rparr>)
     = \<lparr>posFilter = \<lparr>positions = [], alreadyReplaced = [(20, 28)]\<rparr>,
        reported =
          [\<lparr> Diagnostic.Pos = 40, Diagnostic.End = 47,
              Diagnostic.Message = ''error: unsupported node'', SuggestedFixes = [] \<rparr>,
           ToDiagReport plain_quote
             \<lparr>node = other_Name,
              result = \<lparr>Result.From = ''msg.Name'', Result.To = ''msg.GetName()''\<rparr>\<rparr>],
        issues2 = [],
        accepted =
          [\<lparr>node = other_Name,
            result = \<lparr>Result.From = ''msg.Name'', Result.To = ''msg.GetName()''\<rparr>\<rparr>]\<rparr>"
    by (simp add: visit2_def analyse_def ex_Process_def ex_Skipped_def other_Name_def
        bad_Name_def IsFiltered_def IsAlreadyReplaced_def AddAlreadyReplaced_def NewPosFilter_def)
  have run: "Run2 ex_Process ex_Skipped plain_quote ex_fset ?pass StandaloneMode
       = fold (visit2 ex_Process ex_Skipped plain_quote ex_fset ?pass StandaloneMode)
           (bad_Name # [other_Name]) ?st0"
    by (simp add: Run2_def vis)
  from process_error_is_reported
         [where Process = ex_Process and st = ?st0 and n = bad_Name and pass = ?pass
            and err = "''unsupported node''" and flt' = NewPosFilter
            and Skipped = ex_Skipped and quote = plain_quote and fset = ex_fset
            and mode = StandaloneMode and ns = "[other_Name]",
          OF f p]
  have "fold (visit2 ex_Process ex_Skipped plain_quote ex_fset ?pass StandaloneMode)
           (bad_Name # [other_Name]) ?st0
        = visit2 ex_Process ex_Skipped plain_quote ex_fset ?pass StandaloneMode other_Name
                (?st0\<lparr>posFilter := NewPosFilter,
                   reported := reported ?st0 @
                     [\<lparr> Diagnostic.Pos = fst (Range_of bad_Name),
                         Diagnostic.End = snd (Range_of bad_Name),
                         Diagnostic.Message = ''error: '' @ ''unsupported node'',
                         SuggestedFixes = [] \<rparr>]\<rparr>)"
    by simp
  with f p run rest show ?thesis
    by (simp add: bad_Name_def)
qed

end
